theory Spec2Isabelle
  imports Main "HOL-Library.Word" "HOL-Library.Signed_Division"
begin

unbundle bit_operations_syntax

section \<open>Machine types\<close>

text \<open>
  \<open>uint8_t\<close> is an 8-bit word, C \<open>int\<close> a 32-bit word (read as two's complement with
  \<open>sint\<close>), \<open>int64_t\<close> a 64-bit word. \<open>ssize_t\<close> values in the colour conversion are
  sums of at most three products of a byte with a constant below 130, so they are
  modelled as mathematical integers: no 64-bit overflow can occur there.
\<close>

type_synonym byte = "8 word"
type_synonym c_int = "32 word"
type_synonym int64 = "64 word"

text \<open>
  The ways in which a modelled run ends early: a call of \<open>fatal\<close>, with its diagnostic
  (without the format directive for the codec's detail), and a read outside the capture
  buffer.
\<close>

datatype error =
    Fatal string
  | Out_of_bounds

section \<open>Maths and endian routines\<close>

text \<open>\<open>uint8_t clamp(ssize_t x) { return max(min(x, ssize_t(255)), ssize_t(0)); }\<close>\<close>

definition clamp :: "int \<Rightarrow> byte" where
  "clamp x = word_of_int (max (min x 255) 0)"

text \<open>
  \<open>mem_put_le16\<close> and \<open>mem_put_le32\<close> store into the array \<open>mem\<close> at offset \<open>off\<close>
  (the source passes the pointer \<open>header + off\<close>). \<open>>>\<close> on a signed \<open>int\<close> is the
  arithmetic shift.
\<close>

definition mem_put_le16 :: "byte list \<Rightarrow> nat \<Rightarrow> c_int \<Rightarrow> byte list" where
  "mem_put_le16 mem off val =
     mem[off := ucast (signed_drop_bit 0 val AND 0xff),
         off + 1 := ucast (signed_drop_bit 8 val AND 0xff)]"

definition mem_put_le32 :: "byte list \<Rightarrow> nat \<Rightarrow> c_int \<Rightarrow> byte list" where
  "mem_put_le32 mem off val =
     mem[off := ucast (signed_drop_bit 0 val AND 0xff),
         off + 1 := ucast (signed_drop_bit 8 val AND 0xff),
         off + 2 := ucast (signed_drop_bit 16 val AND 0xff),
         off + 3 := ucast (signed_drop_bit 24 val AND 0xff)]"

definition VP9_FOURCC :: c_int where "VP9_FOURCC = 0x30395056"
definition FPS_NUMERATOR :: c_int where "FPS_NUMERATOR = 1"
definition FPS_DENOMINATOR :: c_int where "FPS_DENOMINATOR = 5"
definition KEYFRAME_INTERVAL :: int where "KEYFRAME_INTERVAL = 10"
definition VPX_EFLAG_FORCE_KF :: int where "VPX_EFLAG_FORCE_KF = 1"

section \<open>The output stream\<close>

text \<open>
  A \<open>FILE *\<close> opened for writing: the bytes of the file and the file position. The
  stream is ideal: \<open>fwrite\<close> stores every byte it is given and returns their number.
  A device that refuses bytes is outside the model: the runs described are those in
  which every write succeeds, and the branch of \<open>vpx_video_writer_write_frame\<close> that
  returns 0, with the diagnostic of \<open>encode_frame\<close> that follows it, is written out but
  never taken. Writing past the end extends the file; a position beyond the end leaves
  a gap of zero bytes, as on POSIX.
\<close>

record c_file =
  contents :: "byte list"
  position :: nat

definition fopen_w :: c_file where
  "fopen_w = \<lparr>contents = [], position = 0\<rparr>"

definition fwrite :: "byte list \<Rightarrow> c_file \<Rightarrow> c_file \<times> nat" where
  "fwrite bs f =
     (let old = contents f @ replicate (position f - length (contents f)) 0
      in (\<lparr>contents = take (position f) old @ bs @ drop (position f + length bs) old,
           position = position f + length bs\<rparr>,
          length bs))"

definition ftell :: "c_file \<Rightarrow> nat" where
  "ftell f = position f"

definition rewind :: "c_file \<Rightarrow> c_file" where
  "rewind f = f\<lparr>position := 0\<rparr>"

definition fseek_set :: "c_file \<Rightarrow> nat \<Rightarrow> c_file" where
  "fseek_set f pos = f\<lparr>position := pos\<rparr>"

section \<open>The writer\<close>

text \<open>
  \<open>img.planes[k]\<close> holds, for each plane, the samples that \<open>update_image\<close> stores at
  \<open>dest[0]\<close>, \<open>dest[1]\<close>, ... (it writes them contiguously from index 0).
\<close>

record vpx_image_t =
  planes0 :: "byte list"
  planes1 :: "byte list"
  planes2 :: "byte list"

record 'e IVFVPX9Writer =
  outfile :: c_file
  width :: c_int
  height :: c_int
  frames_written :: c_int
  frames_encoded :: c_int
  codec :: 'e
  img :: vpx_image_t

text \<open>
  The 32-byte array \<open>header\<close> of \<open>write_file_header\<close>, filled by the stores of the
  source in their order. \<open>junk\<close> is the content of the uninitialised local array.
\<close>

definition file_header_from :: "byte list \<Rightarrow> ('e, 'x) IVFVPX9Writer_scheme \<Rightarrow> byte list" where
  "file_header_from junk w =
     (let header = junk[0 := 0x44, 1 := 0x4B, 2 := 0x49, 3 := 0x46];
          header = mem_put_le16 header 4 0;
          header = mem_put_le16 header 6 32;
          header = mem_put_le32 header 8 VP9_FOURCC;
          header = mem_put_le16 header 12 (width w);
          header = mem_put_le16 header 14 (height w);
          header = mem_put_le32 header 16 FPS_DENOMINATOR;
          header = mem_put_le32 header 20 FPS_NUMERATOR;
          header = mem_put_le32 header 24 (frames_written w);
          header = mem_put_le32 header 28 0
      in header)"

definition file_header :: "('e, 'x) IVFVPX9Writer_scheme \<Rightarrow> byte list" where
  "file_header w = file_header_from (replicate 32 0) w"

definition write_file_header :: "'e IVFVPX9Writer \<Rightarrow> 'e IVFVPX9Writer" where
  "write_file_header w =
     (let header = file_header w;
          pos = ftell (outfile w);
          f = rewind (outfile w);
          f = fst (fwrite header f);
          f = (if pos \<ge> 32 then fseek_set f pos else f)
      in w\<lparr>outfile := f\<rparr>)"

text \<open>The 12-byte array \<open>header\<close> of \<open>write_ivf_frame_header\<close>.\<close>

definition ivf_frame_header :: "int64 \<Rightarrow> 32 word \<Rightarrow> byte list" where
  "ivf_frame_header pts frame_size =
     (let header = replicate 12 0;
          header = mem_put_le32 header 0 frame_size;
          header = mem_put_le32 header 4 (ucast (pts AND 0xFFFFFFFF));
          header = mem_put_le32 header 8 (ucast (signed_drop_bit 32 pts))
      in header)"

definition write_ivf_frame_header :: "c_file \<Rightarrow> int64 \<Rightarrow> 32 word \<Rightarrow> c_file" where
  "write_ivf_frame_header f pts frame_size = fst (fwrite (ivf_frame_header pts frame_size) f)"

text \<open>
  \<open>vpx_video_writer_write_frame\<close>: \<open>size\<close> is the length of \<open>buffer\<close>; it is narrowed
  to \<open>uint32_t\<close> for the frame header. The result is the writer and the \<open>int\<close> returned.
\<close>

definition vpx_video_writer_write_frame ::
  "'e IVFVPX9Writer \<Rightarrow> byte list \<Rightarrow> int64 \<Rightarrow> 'e IVFVPX9Writer \<times> int" where
  "vpx_video_writer_write_frame w buffer pts =
     (let size = length buffer;
          f = write_ivf_frame_header (outfile w) pts (word_of_nat size);
          (f, n) = fwrite buffer f
      in if n \<noteq> size then (w\<lparr>outfile := f\<rparr>, 0)
         else (w\<lparr>outfile := f, frames_written := frames_written w + 1\<rparr>, 1))"

section \<open>The encoder\<close>

text \<open>
  libvpx is an external library. Its calls are parameters of the model: \<open>'e\<close> is the
  state behind \<open>vpx_codec_ctx_t\<close>, and a \<open>None\<close> (or \<open>True\<close> for
  \<open>vpx_codec_enc_config_default\<close>) is a result other than \<open>VPX_CODEC_OK\<close>.
  \<open>vpx_codec_encode\<close> takes the image (\<open>None\<close> for \<open>nullptr\<close>), the presentation time
  stamp and the flags; with the new state it gives the packets that the following calls of
  \<open>vpx_codec_get_cx_data\<close> return before \<open>NULL\<close>. The size \<open>sz\<close> of a frame packet is the
  length of \<open>frame_buf\<close>.
\<close>

datatype vpx_codec_cx_pkt_kind =
    VPX_CODEC_CX_FRAME_PKT
  | VPX_CODEC_STATS_PKT
  | VPX_CODEC_FPMB_STATS_PKT
  | VPX_CODEC_PSNR_PKT
  | VPX_CODEC_CUSTOM_PKT

record vpx_codec_cx_pkt_t =
  kind :: vpx_codec_cx_pkt_kind
  frame_buf :: "byte list"
  frame_pts :: int64

record 'e vpx_codec =
  vpx_codec_enc_config_default :: bool
  vpx_codec_enc_init :: "c_int \<Rightarrow> c_int \<Rightarrow> 'e option"
  vpx_codec_control_lossless :: "'e \<Rightarrow> 'e option"
  vpx_codec_encode ::
    "'e \<Rightarrow> vpx_image_t option \<Rightarrow> int \<Rightarrow> int \<Rightarrow> ('e \<times> vpx_codec_cx_pkt_t list) option"

text \<open>The loop \<open>while ((pkt = vpx_codec_get_cx_data(&codec, &iter)) != NULL)\<close>.\<close>

fun write_packets ::
  "vpx_codec_cx_pkt_t list \<Rightarrow> 'e IVFVPX9Writer \<Rightarrow> int \<Rightarrow> error + 'e IVFVPX9Writer \<times> int" where
  "write_packets [] w got_pkts = Inr (w, got_pkts)"
| "write_packets (pkt # pkts) w got_pkts =
     (if kind pkt = VPX_CODEC_CX_FRAME_PKT then
        (case vpx_video_writer_write_frame w (frame_buf pkt) (frame_pts pkt) of
           (w', r) \<Rightarrow>
             if r = 0 then Inl (Fatal ''Failed to write compressed frame.'')
             else write_packets pkts w' 1)
      else write_packets pkts w 1)"

definition encode_frame ::
  "'e vpx_codec \<Rightarrow> bool \<Rightarrow> 'e IVFVPX9Writer \<Rightarrow> error + 'e IVFVPX9Writer \<times> int" where
  "encode_frame enc flush w =
     (let frame_index = (if \<not> flush then sint (frames_encoded w) else - 1);
          flags = (if frame_index smod KEYFRAME_INTERVAL = 0 then VPX_EFLAG_FORCE_KF else 0);
          image = (if \<not> flush then Some (img w) else None);
          w = (if \<not> flush then w\<lparr>frames_encoded := frames_encoded w + 1\<rparr> else w)
      in case vpx_codec_encode enc (codec w) image frame_index flags of
           None \<Rightarrow> Inl (Fatal ''Failed to encode frame.'')
         | Some (c, pkts) \<Rightarrow> write_packets pkts (w\<lparr>codec := c\<rparr>) 0)"

section \<open>Colour conversion\<close>

text \<open>
  \<open>/\<close> on \<open>ssize_t\<close> truncates towards zero: \<open>sdiv\<close>. A read outside the array that
  \<open>buffer\<close> points into is undefined in the source; the model answers \<open>Out_of_bounds\<close>.
  The index \<open>o\<close> is computed without overflow (the source computes it in \<open>int\<close>).
\<close>

definition luma :: "int \<Rightarrow> int \<Rightarrow> int \<Rightarrow> byte" where
  "luma r g b = clamp ((66 * r + 129 * g + 25 * b + 128) sdiv 256 + 16)"

definition chroma_u :: "int \<Rightarrow> int \<Rightarrow> int \<Rightarrow> byte" where
  "chroma_u r g b = clamp ((- 38 * r - 74 * g + 112 * b + 128) sdiv 256 + 128)"

definition chroma_v :: "int \<Rightarrow> int \<Rightarrow> int \<Rightarrow> byte" where
  "chroma_v r g b = clamp ((112 * r - 94 * g - 18 * b + 128) sdiv 256 + 128)"

definition read_rgb :: "byte list \<Rightarrow> int \<Rightarrow> error + int \<times> int \<times> int" where
  "read_rgb buffer o' =
     (if 0 \<le> o' \<and> o' + 2 < int (length buffer)
      then Inr (uint (buffer ! nat o'), uint (buffer ! nat (o' + 1)), uint (buffer ! nat (o' + 2)))
      else Inl Out_of_bounds)"

text \<open>
  The inner and outer loops of \<open>update_image\<close>; \<open>f\<close> is the formula of the plane, the
  list \<open>dest\<close> the samples stored so far (\<open>dst_pos\<close> is its length). \<open>row1\<close> and
  \<open>plane1\<close> step by one (luma), \<open>row2\<close> and \<open>plane2\<close> by two (chroma).
\<close>

function row1 ::
  "(int \<Rightarrow> int \<Rightarrow> int \<Rightarrow> byte) \<Rightarrow> int \<Rightarrow> byte list \<Rightarrow> int \<Rightarrow> int \<Rightarrow> byte list \<Rightarrow> error + byte list" where
  "row1 f width' buffer y x dest =
     (if x < width' then
        (case read_rgb buffer ((y * width' + x) * 3) of
           Inl e \<Rightarrow> Inl e
         | Inr (r, g, b) \<Rightarrow> row1 f width' buffer y (x + 1) (dest @ [f r g b]))
      else Inr dest)"
  by pat_completeness auto
termination
  by (relation "measure (\<lambda>(f, width', buffer, y, x, dest). nat (width' - x))") auto

function plane1 ::
  "(int \<Rightarrow> int \<Rightarrow> int \<Rightarrow> byte) \<Rightarrow> int \<Rightarrow> int \<Rightarrow> byte list \<Rightarrow> int \<Rightarrow> byte list \<Rightarrow> error + byte list" where
  "plane1 f width' height' buffer y dest =
     (if y < height' then
        (case row1 f width' buffer y 0 dest of
           Inl e \<Rightarrow> Inl e
         | Inr dest' \<Rightarrow> plane1 f width' height' buffer (y + 1) dest')
      else Inr dest)"
  by pat_completeness auto
termination
  by (relation "measure (\<lambda>(f, width', height', buffer, y, dest). nat (height' - y))") auto

function row2 ::
  "(int \<Rightarrow> int \<Rightarrow> int \<Rightarrow> byte) \<Rightarrow> int \<Rightarrow> byte list \<Rightarrow> int \<Rightarrow> int \<Rightarrow> byte list \<Rightarrow> error + byte list" where
  "row2 f width' buffer y x dest =
     (if x < width' then
        (case read_rgb buffer ((y * width' + x) * 3) of
           Inl e \<Rightarrow> Inl e
         | Inr (r, g, b) \<Rightarrow> row2 f width' buffer y (x + 2) (dest @ [f r g b]))
      else Inr dest)"
  by pat_completeness auto
termination
  by (relation "measure (\<lambda>(f, width', buffer, y, x, dest). nat (width' - x))") auto

function plane2 ::
  "(int \<Rightarrow> int \<Rightarrow> int \<Rightarrow> byte) \<Rightarrow> int \<Rightarrow> int \<Rightarrow> byte list \<Rightarrow> int \<Rightarrow> byte list \<Rightarrow> error + byte list" where
  "plane2 f width' height' buffer y dest =
     (if y < height' then
        (case row2 f width' buffer y 0 dest of
           Inl e \<Rightarrow> Inl e
         | Inr dest' \<Rightarrow> plane2 f width' height' buffer (y + 2) dest')
      else Inr dest)"
  by pat_completeness auto
termination
  by (relation "measure (\<lambda>(f, width', height', buffer, y, dest). nat (height' - y))") auto

declare row1.simps [simp del] plane1.simps [simp del] row2.simps [simp del] plane2.simps [simp del]

definition update_image :: "'e IVFVPX9Writer \<Rightarrow> byte list \<Rightarrow> error + 'e IVFVPX9Writer" where
  "update_image w buffer =
     (case plane1 luma (sint (width w)) (sint (height w)) buffer 0 [] of
        Inl e \<Rightarrow> Inl e
      | Inr p0 \<Rightarrow>
          (case plane2 chroma_u (sint (width w)) (sint (height w)) buffer 0 [] of
             Inl e \<Rightarrow> Inl e
           | Inr p1 \<Rightarrow>
               (case plane2 chroma_v (sint (width w)) (sint (height w)) buffer 0 [] of
                  Inl e \<Rightarrow> Inl e
                | Inr p2 \<Rightarrow> Inr (w\<lparr>img := \<lparr>planes0 = p0, planes1 = p1, planes2 = p2\<rparr>\<rparr>))))"

section \<open>Flushing, construction and destruction\<close>

text \<open>
  \<open>while (encode_frame(true)) { }\<close> runs for as long as the encoder hands out packets:
  not returning is the value \<open>None\<close>.
\<close>

partial_function (option) flush_loop ::
  "'e vpx_codec \<Rightarrow> 'e IVFVPX9Writer \<Rightarrow> (error + 'e IVFVPX9Writer) option" where
  "flush_loop enc w =
     (case encode_frame enc True w of
        Inl e \<Rightarrow> Some (Inl e)
      | Inr (w', got_pkts) \<Rightarrow> if got_pkts \<noteq> 0 then flush_loop enc w' else Some (Inr w'))"

definition flush :: "'e vpx_codec \<Rightarrow> 'e IVFVPX9Writer \<Rightarrow> (error + 'e IVFVPX9Writer) option" where
  "flush enc w = flush_loop enc (write_file_header w)"

text \<open>\<open>~IVFVPX9Writer\<close>: \<open>flush\<close>, then the file is closed and the codec destroyed.\<close>

definition IVFVPX9Writer_destroy ::
  "'e vpx_codec \<Rightarrow> 'e IVFVPX9Writer \<Rightarrow> (error + 'e IVFVPX9Writer) option" where
  "IVFVPX9Writer_destroy enc w = flush enc w"

text \<open>
  The constructor. \<open>fopen(filename, "w")\<close> gives an empty file; the image planes hold no
  sample before the first \<open>update_image\<close>.
\<close>

definition IVFVPX9Writer_new :: "'e vpx_codec \<Rightarrow> c_int \<Rightarrow> c_int \<Rightarrow> error + 'e IVFVPX9Writer" where
  "IVFVPX9Writer_new enc width' height' =
     (if vpx_codec_enc_config_default enc
      then Inl (Fatal ''Failed to get default codec config.'')
      else
        (case vpx_codec_enc_init enc width' height' of
           None \<Rightarrow> Inl (Fatal ''Failed to initialize encoder with VP9 codec.'')
         | Some c \<Rightarrow>
             (case vpx_codec_control_lossless enc c of
                None \<Rightarrow> Inl (Fatal ''Failed to use lossless mode on VP9 codec.'')
              | Some c' \<Rightarrow>
                  Inr (write_file_header
                    \<lparr>outfile = fopen_w, width = width', height = height',
                     frames_written = 0, frames_encoded = 0, codec = c',
                     img = \<lparr>planes0 = [], planes1 = [], planes2 = []\<rparr>\<rparr>))))"

section \<open>The capture loop\<close>

text \<open>
  \<open>sscanf((char *)buffer, "P6 %d %d %d%n", &pwidth, &pheight, &pdepth, &chars)\<close>, after
  the C standard: the characters \<open>P\<close> and \<open>6\<close> must match; white space in the format
  matches any amount of white space; \<open>%d\<close> skips white space and reads an optional sign
  and at least one decimal digit; \<open>%n\<close> stores the number of characters consumed. A
  variable whose directive is not reached keeps the value it had. The result is the
  number of items assigned (where C answers \<open>EOF\<close> the model answers 0; the caller
  discards the value). The input ends at the first byte that no directive accepts, a
  NUL byte among them.
\<close>

record scan_vars =
  pwidth :: c_int
  pheight :: c_int
  pdepth :: c_int
  chars :: c_int

definition isspace :: "byte \<Rightarrow> bool" where
  "isspace c = (c = 0x20 \<or> (0x09 \<le> c \<and> c \<le> 0x0d))"

definition isdigit :: "byte \<Rightarrow> bool" where
  "isdigit c = (0x30 \<le> c \<and> c \<le> 0x39)"

definition decimal :: "byte list \<Rightarrow> int" where
  "decimal ds = foldl (\<lambda>n c. 10 * n + (uint c - 48)) 0 ds"

definition scan_d :: "byte list \<Rightarrow> (c_int \<times> byte list) option" where
  "scan_d s =
     (let s1 = dropWhile isspace s;
          (neg, s2) = (case s1 of
                         [] \<Rightarrow> (False, [])
                       | c # r \<Rightarrow> if c = 0x2d then (True, r)
                                  else if c = 0x2b then (False, r) else (False, s1));
          ds = takeWhile isdigit s2
      in if ds = [] then None
         else Some (word_of_int (if neg then - decimal ds else decimal ds), dropWhile isdigit s2))"

definition sscanf_P6 :: "byte list \<Rightarrow> scan_vars \<Rightarrow> scan_vars \<times> nat" where
  "sscanf_P6 s v =
     (case s of
        p # six # s1 \<Rightarrow>
          if p = 0x50 \<and> six = 0x36 then
            (case scan_d s1 of
               None \<Rightarrow> (v, 0)
             | Some (a, s2) \<Rightarrow>
                 (case scan_d s2 of
                    None \<Rightarrow> (v\<lparr>pwidth := a\<rparr>, 1)
                  | Some (b, s3) \<Rightarrow>
                      (case scan_d s3 of
                         None \<Rightarrow> (v\<lparr>pwidth := a, pheight := b\<rparr>, 2)
                       | Some (c, s4) \<Rightarrow>
                           (v\<lparr>pwidth := a, pheight := b, pdepth := c,
                              chars := word_of_nat (length s - length s4)\<rparr>, 3))))
          else (v, 0)
      | _ \<Rightarrow> (v, 0))"

text \<open>
  One iteration of \<open>while (capturing)\<close> after a successful \<open>take_screenshot\<close>:
  \<open>buffer\<close> is the content of the capture array, \<open>junk\<close> the indeterminate values of the
  uninitialised locals \<open>pwidth\<close>, \<open>pheight\<close>, \<open>pdepth\<close> and \<open>chars\<close>. The pointer
  \<open>buffer + chars\<close> must stay inside the array.
\<close>

definition capture_iteration ::
  "'e vpx_codec \<Rightarrow> 'e IVFVPX9Writer option \<Rightarrow> scan_vars \<Rightarrow> byte list \<Rightarrow> error + 'e IVFVPX9Writer" where
  "capture_iteration enc video_stream junk buffer =
     (let (v, n) = sscanf_P6 buffer junk;
          chars' = chars v + 1
      in case (case video_stream of
                 None \<Rightarrow> IVFVPX9Writer_new enc (pwidth v) (pheight v)
               | Some w \<Rightarrow> Inr w) of
           Inl e \<Rightarrow> Inl e
         | Inr w \<Rightarrow>
             if sint chars' < 0 \<or> int (length buffer) < sint chars' then Inl Out_of_bounds
             else
               (case update_image w (drop (nat (sint chars')) buffer) of
                  Inl e \<Rightarrow> Inl e
                | Inr w' \<Rightarrow>
                    (case encode_frame enc False w' of
                       Inl e \<Rightarrow> Inl e
                     | Inr (w'', got_pkts) \<Rightarrow> Inr w'')))"

text \<open>
  What the environment gives to one iteration: \<open>take_screenshot\<close> fails (\<open>No_data\<close>), or
  it fills the capture array. The list of captures ends where \<open>capturing\<close> is found 0.
\<close>

datatype capture = No_data | Data scan_vars "byte list"

fun main_loop ::
  "'e vpx_codec \<Rightarrow> 'e IVFVPX9Writer option \<Rightarrow> capture list \<Rightarrow> error + 'e IVFVPX9Writer option" where
  "main_loop enc video_stream [] = Inr video_stream"
| "main_loop enc video_stream (No_data # cs) = main_loop enc video_stream cs"
| "main_loop enc video_stream (Data junk buffer # cs) =
     (case capture_iteration enc video_stream junk buffer of
        Inl e \<Rightarrow> Inl e
      | Inr w \<Rightarrow> main_loop enc (Some w) cs)"

section \<open>Shutdown\<close>

text \<open>
  The end of \<open>main\<close> from line 431 on, with the effects that the outside sees in their
  order: a \<open>flush\<close> of the writer that ran to its end, the call of \<open>mkvmerge\<close> with the
  content of the temporary file (\<open>None\<close> when no such file exists), \<open>unlink\<close>.
  \<open>mkvmerge\<close> answers whether \<open>system\<close> returned a status other than 0. \<open>fatal\<close>
  calls \<open>exit\<close>, which does not destroy the writer; \<open>return 0\<close> does.

  Line 429, before it, prints \<open>video_stream->frames_encoded\<close>. With a writer this
  changes nothing. With no writer it dereferences a null pointer: the behaviour of the
  program is undefined from there, and the model gives it no outcome.
\<close>

datatype event = Flush | Remux "byte list option" | Unlink

definition main_finish ::
  "'e vpx_codec \<Rightarrow> (byte list option \<Rightarrow> bool) \<Rightarrow> 'e IVFVPX9Writer option \<Rightarrow>
     ((error + 'e IVFVPX9Writer option) \<times> event list) option" where
  "main_finish enc mkvmerge video_stream =
     (case (case video_stream of
              None \<Rightarrow> Some (Inr None, [])
            | Some w \<Rightarrow>
                (case flush enc w of
                   None \<Rightarrow> None
                 | Some (Inl e) \<Rightarrow> Some (Inl e, [])
                 | Some (Inr w') \<Rightarrow> Some (Inr (Some w'), [Flush]))) of
        None \<Rightarrow> None
      | Some (Inl e, evs) \<Rightarrow> Some (Inl e, evs)
      | Some (Inr vs, evs) \<Rightarrow>
          (let tmp_file = map_option (\<lambda>w. contents (outfile w)) vs
           in if mkvmerge tmp_file
              then Some (Inl (Fatal ''Failed to launch mkvmerge, check that mkvmerge is intalled.''),
                         evs @ [Remux tmp_file])
              else
                (case vs of
                   None \<Rightarrow> Some (Inr None, evs @ [Remux tmp_file, Unlink])
                 | Some w \<Rightarrow>
                     (case IVFVPX9Writer_destroy enc w of
                        None \<Rightarrow> None
                      | Some (Inl e) \<Rightarrow> Some (Inl e, evs @ [Remux tmp_file, Unlink])
                      | Some (Inr w') \<Rightarrow>
                          Some (Inr (Some w'), evs @ [Remux tmp_file, Unlink, Flush])))))"

section \<open>Reading the container back\<close>

text \<open>Little-endian decoding of a field of the file, as a reader of the container does.\<close>

definition le_decode :: "byte list \<Rightarrow> nat" where
  "le_decode bs = foldr (\<lambda>b n. unat b + 256 * n) bs 0"

definition field :: "nat \<Rightarrow> nat \<Rightarrow> byte list \<Rightarrow> byte list" where
  "field off len bs = take len (drop off bs)"

definition header_frame_count :: "byte list \<Rightarrow> nat" where
  "header_frame_count bs = le_decode (field 24 4 bs)"

text \<open>
  Least-significant byte first: the encoding of a 16-bit and of a 32-bit field that the
  container format asks for.
\<close>

definition le16_bytes :: "c_int \<Rightarrow> byte list" where
  "le16_bytes v = [ucast v, ucast (drop_bit 8 v)]"

definition le32_bytes :: "c_int \<Rightarrow> byte list" where
  "le32_bytes v = [ucast v, ucast (drop_bit 8 v), ucast (drop_bit 16 v), ucast (drop_bit 24 v)]"

section \<open>Scenarios and encoders for concrete runs\<close>

text \<open>A sequence of appends: each element is the payload and the time stamp of a frame.\<close>

fun append_frames :: "'e IVFVPX9Writer \<Rightarrow> (byte list \<times> int64) list \<Rightarrow> 'e IVFVPX9Writer" where
  "append_frames w [] = w"
| "append_frames w ((buffer, pts) # frames) =
     append_frames (fst (vpx_video_writer_write_frame w buffer pts)) frames"

text \<open>
  An encoder with a lookahead of \<open>lag\<close> frames, as a queue of the time stamps of the
  frames it holds: a live frame joins the queue, and the oldest frame leaves as a packet
  once more than \<open>lag\<close> are held; a flush submission hands out the oldest frame held,
  if any.
\<close>

definition frame_pkt :: "int \<Rightarrow> vpx_codec_cx_pkt_t" where
  "frame_pkt pts =
     \<lparr>kind = VPX_CODEC_CX_FRAME_PKT, frame_buf = [0x82, word_of_int pts],
      frame_pts = word_of_int pts\<rparr>"

definition lag_codec :: "nat \<Rightarrow> int list vpx_codec" where
  "lag_codec lag =
     \<lparr>vpx_codec_enc_config_default = False,
      vpx_codec_enc_init = (\<lambda>w h. Some []),
      vpx_codec_control_lossless = (\<lambda>q. Some q),
      vpx_codec_encode = (\<lambda>q image pts flags.
        case image of
          Some i \<Rightarrow>
            if lag < length (q @ [pts]) then Some (tl (q @ [pts]), [frame_pkt (hd (q @ [pts]))])
            else Some (q @ [pts], [])
        | None \<Rightarrow>
            (case q of
               [] \<Rightarrow> Some ([], [])
             | p # q' \<Rightarrow> Some (q', [frame_pkt p])))\<rparr>"

text \<open>
  An encoder that also records every submission it receives: the image, the time stamp
  (the frame index) and the flags.
\<close>

type_synonym submission = "vpx_image_t option \<times> int \<times> int"

definition spy :: "'e vpx_codec \<Rightarrow> ('e \<times> submission list) vpx_codec" where
  "spy enc =
     \<lparr>vpx_codec_enc_config_default = vpx_codec_enc_config_default enc,
      vpx_codec_enc_init = (\<lambda>w h. map_option (\<lambda>c. (c, [])) (vpx_codec_enc_init enc w h)),
      vpx_codec_control_lossless =
        (\<lambda>(c, log). map_option (\<lambda>c'. (c', log)) (vpx_codec_control_lossless enc c)),
      vpx_codec_encode = (\<lambda>(c, log) image pts flags.
        map_option (\<lambda>(c', pkts). ((c', log @ [(image, pts, flags)]), pkts))
          (vpx_codec_encode enc c image pts flags))\<rparr>"

text \<open>The writer of a session with a recording encoder, without the record.\<close>

definition unspy :: "('e \<times> submission list) IVFVPX9Writer \<Rightarrow> 'e IVFVPX9Writer" where
  "unspy w =
     \<lparr>outfile = outfile w, width = width w, height = height w,
      frames_written = frames_written w, frames_encoded = frames_encoded w,
      codec = fst (codec w), img = img w\<rparr>"

text \<open>The number of frame packets among the packets of one submission.\<close>

definition frame_pkts :: "vpx_codec_cx_pkt_t list \<Rightarrow> nat" where
  "frame_pkts pkts = length (filter (\<lambda>pkt. kind pkt = VPX_CODEC_CX_FRAME_PKT) pkts)"

text \<open>
  What the flush protocol expects of an encoder with a finite lookahead; \<open>held c\<close> is
  the number of frames that the encoder holds in state \<open>c\<close>. A fresh encoder holds none;
  a live submission that succeeds takes one frame in and hands out each frame it lets
  go as one frame packet; a flush submission succeeds, hands out frames it held, at
  least one if it held any, and no packet at all once it holds none.
\<close>

definition lookahead_encoder :: "'e vpx_codec \<Rightarrow> ('e \<Rightarrow> nat) \<Rightarrow> bool" where
  "lookahead_encoder enc held \<longleftrightarrow>
     (\<forall>a b c. vpx_codec_enc_init enc a b = Some c \<longrightarrow> held c = 0) \<and>
     (\<forall>c c'. vpx_codec_control_lossless enc c = Some c' \<longrightarrow> held c' = held c) \<and>
     (\<forall>c image pts flags c' pkts.
        vpx_codec_encode enc c (Some image) pts flags = Some (c', pkts) \<longrightarrow>
        frame_pkts pkts + held c' = held c + 1) \<and>
     (\<forall>c pts flags. \<exists>c' pkts.
        vpx_codec_encode enc c None pts flags = Some (c', pkts) \<and>
        frame_pkts pkts + held c' = held c \<and>
        (held c = 0 \<longrightarrow> pkts = []) \<and> (0 < held c \<longrightarrow> 0 < frame_pkts pkts))"

text \<open>
  The frame index and the flags of the first \<open>n\<close> submissions of a session that forces
  a key frame on the indices 0, 10, 20, ... and on no other.
\<close>

definition cadence :: "nat \<Rightarrow> (int \<times> int) list" where
  "cadence n = map (\<lambda>i. (int i, if i mod 10 = 0 then VPX_EFLAG_FORCE_KF else 0)) [0..<n]"

text \<open>
  The state of a session with a recording encoder after \<open>k\<close> live submissions that
  followed the cadence: no writer before the first, then a writer that counts \<open>k\<close>
  frames and whose encoder recorded the cadence of \<open>k\<close> submissions.
\<close>

definition logged :: "('c \<times> submission list) IVFVPX9Writer option \<Rightarrow> nat \<Rightarrow> bool" where
  "logged vs k = (case vs of
      None \<Rightarrow> k = 0
    | Some w \<Rightarrow> frames_encoded w = word_of_nat k
        \<and> map (\<lambda>(im, pts, flags). (pts, flags)) (snd (codec w)) = cadence k)"

text \<open>
  The state of a writer between two calls: the position is at the end of a file that
  holds a stream header, and the frames written and the frames held by the encoder add
  up to the frames submitted. \<open>counted\<close> is the state of a session after \<open>k\<close> live
  frames.
\<close>

definition balanced :: "('e \<Rightarrow> nat) \<Rightarrow> 'e IVFVPX9Writer \<Rightarrow> bool" where
  "balanced held w \<longleftrightarrow>
     position (outfile w) = length (contents (outfile w)) \<and>
     32 \<le> length (contents (outfile w)) \<and>
     frames_written w + word_of_nat (held (codec w)) = frames_encoded w"

definition counted :: "('e \<Rightarrow> nat) \<Rightarrow> 'e IVFVPX9Writer option \<Rightarrow> nat \<Rightarrow> bool" where
  "counted held vs k =
     (case vs of None \<Rightarrow> k = 0 | Some w \<Rightarrow> balanced held w \<and> frames_encoded w = word_of_nat k)"

text \<open>
  A capture of a 2 by 2 image: the header \<open>P6 2 2 255\<close>, a line feed and twelve bytes
  of pixel data; and the values that the locals of the loop hold before \<open>sscanf\<close>.
\<close>

definition ppm_2x2 :: "byte list" where
  "ppm_2x2 = [0x50, 0x36, 0x20, 0x32, 0x20, 0x32, 0x20, 0x32, 0x35, 0x35, 0x0a,
              255, 0, 0, 0, 255, 0, 0, 0, 255, 10, 20, 30]"

text \<open>
  A capture that does not begin with \<open>P6\<close>: the characters \<open>X6\<close>, then the same twelve
  bytes of pixel data.
\<close>

definition unparsable_capture :: "byte list" where
  "unparsable_capture = [0x58, 0x36, 255, 0, 0, 0, 255, 0, 0, 0, 255, 10, 20, 30]"

definition junk_vars :: scan_vars where
  "junk_vars = \<lparr>pwidth = 2, pheight = 2, pdepth = 0, chars = 1\<rparr>"

text \<open>A writer for a 4 by 2 image over an empty file, with a codec without state.\<close>

definition writer_4x2 :: "unit IVFVPX9Writer" where
  "writer_4x2 =
     \<lparr>outfile = fopen_w, width = 4, height = 2, frames_written = 0, frames_encoded = 0,
      codec = (), img = \<lparr>planes0 = [], planes1 = [], planes2 = []\<rparr>\<rparr>"

text \<open>The same writer after the constructor's header and one append.\<close>

definition writer_one_frame :: "unit IVFVPX9Writer" where
  "writer_one_frame =
     fst (vpx_video_writer_write_frame (write_file_header writer_4x2) [1, 2, 3] 7)"

text \<open>The pixel data of a 4 by 2 image in which every pixel is (255, 0, 0).\<close>

definition red_4x2 :: "byte list" where
  "red_4x2 = concat (replicate 8 [255, 0, 0])"

section \<open>Byte-order lemmas\<close>

lemma mask_255: "(255 :: c_int) = mask 8"
  by (simp add: mask_eq_exp_minus_1)

lemma byte_of_shift:
  "n \<le> 24 \<Longrightarrow> (ucast (signed_drop_bit n (v::c_int) AND 0xff) :: byte) = ucast (drop_bit n v)"
  by (rule bit_word_eqI) (auto simp add: bit_simps mask_255)

lemma unat_byte_of_shift:
  "unat (ucast (drop_bit n (v::c_int)) :: byte) = (unat v div 2 ^ n) mod 256"
proof -
  have "unat (ucast (drop_bit n v) :: byte) = take_bit 8 (drop_bit n (unat v))"
    by (simp add: unsigned_ucast_eq unat_drop_bit_eq)
  then show ?thesis
    by (simp add: drop_bit_eq_div take_bit_eq_mod)
qed

lemma unat_byte_of_word: "unat (ucast (v::c_int) :: byte) = unat v mod 256"
  using unat_byte_of_shift [of 0 v] by simp

lemma ucast_and_255: "(ucast ((v::c_int) AND 255) :: byte) = ucast v"
  using byte_of_shift [of 0 v] by simp

lemma list_update_numeral: "(x # xs)[numeral k := y] = x # xs[pred_numeral k := y]"
  by (simp add: numeral_eq_Suc)

lemma length_numeral_conv:
  "(length xs = numeral k) = (\<exists>y ys. xs = y # ys \<and> length ys = pred_numeral k)"
  by (simp add: numeral_eq_Suc length_Suc_conv)

lemma ucast_signed_drop_bit:
  "n \<le> 24 \<Longrightarrow> (ucast (signed_drop_bit n (v::c_int)) :: byte) = ucast (drop_bit n v)"
  by (rule bit_word_eqI) (auto simp add: bit_simps)

lemma base256_2: "(n::nat) mod 256 + 256 * (n div 256 mod 256) = n mod 65536"
proof -
  have "n mod 65536 = n mod (256 * 256)" by simp
  also have "\<dots> = n mod 256 + 256 * (n div 256 mod 256)"
    by (simp only: mod_mult2_eq)
  finally show ?thesis by simp
qed

lemma base256_4:
  assumes "(n::nat) < 4294967296"
  shows "n mod 256 + 256 * (n div 256 mod 256 + 256 * (n div 65536 mod 256 + 256 * (n div 16777216 mod 256))) = n"
proof -
  have a: "n div 65536 = n div 256 div 256" and b: "n div 16777216 = n div 256 div 256 div 256"
    by (simp_all add: div_mult2_eq [symmetric])
  have c: "n div 256 div 256 div 256 < 256" using assms by (simp add: div_mult2_eq [symmetric])
  have d: "\<And>m::nat. m mod 256 + 256 * (m div 256) = m" by simp
  show ?thesis
    unfolding a b using c by (simp add: d)
qed

lemma le_decode_le16: "le_decode (le16_bytes v) = unat v mod 65536"
  using base256_2 [of "unat v"]
  by (simp add: le_decode_def le16_bytes_def unat_byte_of_shift unat_byte_of_word [of v])

lemma le_decode_le32: "le_decode (le32_bytes v) = unat v"
proof -
  have less: "unat v < 4294967296" using unsigned_less [of v, where 'a = nat] by simp
  then have "unat v div 16777216 mod 256 = unat v div 16777216"
    by simp
  with base256_4 [OF less] show ?thesis
    by (simp add: le_decode_def le32_bytes_def unat_byte_of_shift unat_byte_of_word [of v])
qed

lemma file_header_from_explicit:
  "file_header_from [a0,a1,a2,a3,a4,a5,a6,a7,a8,a9,a10,a11,a12,a13,a14,a15,a16,a17,a18,a19,a20,a21,a22,a23,a24,a25,a26,a27,a28,a29,a30,a31] w = 
  [0x44, 0x4B, 0x49, 0x46] @ le16_bytes 0 @ le16_bytes 32 @ le32_bytes 0x30395056 @ le16_bytes (width w) @ le16_bytes (height w) @ le32_bytes 5 @ le32_bytes 1 @ le32_bytes (frames_written w) @ le32_bytes 0"
  apply (simp add: file_header_from_def mem_put_le16_def mem_put_le32_def VP9_FOURCC_def FPS_DENOMINATOR_def FPS_NUMERATOR_def Let_def list_update_numeral le16_bytes_def le32_bytes_def)
  apply (simp add: ucast_and_255 ucast_signed_drop_bit)
  done

lemma file_header_from_junk:
  assumes "length junk = 32"
  shows "file_header_from junk w = 
  [0x44, 0x4B, 0x49, 0x46] @ le16_bytes 0 @ le16_bytes 32 @ le32_bytes 0x30395056 @ le16_bytes (width w) @ le16_bytes (height w) @ le32_bytes 5 @ le32_bytes 1 @ le32_bytes (frames_written w) @ le32_bytes 0"
proof -
  from assms obtain a0 a1 a2 a3 a4 a5 a6 a7 a8 a9 a10 a11 a12 a13 a14 a15 a16 a17 a18 a19 a20 a21 a22 a23 a24 a25 a26 a27 a28 a29 a30 a31 where "junk = [a0,a1,a2,a3,a4,a5,a6,a7,a8,a9,a10,a11,a12,a13,a14,a15,a16,a17,a18,a19,a20,a21,a22,a23,a24,a25,a26,a27,a28,a29,a30,a31]"
    by (clarsimp simp add: length_numeral_conv length_Suc_conv)
  then show ?thesis by (simp only: file_header_from_explicit)
qed

lemma file_header_eq:
  "file_header w = 
  [0x44, 0x4B, 0x49, 0x46] @ le16_bytes 0 @ le16_bytes 32 @ le32_bytes 0x30395056 @ le16_bytes (width w) @ le16_bytes (height w) @ le32_bytes 5 @ le32_bytes 1 @ le32_bytes (frames_written w) @ le32_bytes 0"
  unfolding file_header_def by (rule file_header_from_junk) simp

lemma length_file_header: "length (file_header w) = 32"
  by (simp add: file_header_eq le16_bytes_def le32_bytes_def)

lemma write_file_header_contents:
  "contents (outfile (write_file_header w)) = file_header w @ drop 32 (contents (outfile w))"
  by (simp add: write_file_header_def fwrite_def rewind_def fseek_set_def ftell_def Let_def
      length_file_header)

lemma write_file_header_position:
  "position (outfile (write_file_header w)) =
     (if 32 \<le> position (outfile w) then position (outfile w) else 32)"
  by (simp add: write_file_header_def fwrite_def rewind_def fseek_set_def ftell_def Let_def
      length_file_header)

lemma write_file_header_fields:
  "width (write_file_header w) = width w"
  "height (write_file_header w) = height w"
  "frames_written (write_file_header w) = frames_written w"
  "frames_encoded (write_file_header w) = frames_encoded w"
  "codec (write_file_header w) = codec w"
  "img (write_file_header w) = img w"
  by (simp_all add: write_file_header_def Let_def)

section \<open>The stream header\<close>

text \<open>
  Claim C2. For every width, height and frame count, \<open>write_file_header\<close> puts at the
  start of the file exactly 32 bytes: the tag \<open>DKIF\<close> at offset 0, the 16-bit version 0
  at 4, the 16-bit header size 32 at 6, the 32-bit codec identifier at 8, the 16-bit
  width at 12 and height at 14 (the low 16 bits of the two \<open>int\<close> fields), the 32-bit
  rate denominator 5 at 16 and numerator 1 at 20, the 32-bit frame count at 24 and the
  32-bit reserved 0 at 28, every field least-significant byte first. The bytes come from
  shifts and masks of the values, so the host byte order plays no part.
\<close>

theorem write_file_header_layout:
  "take 32 (contents (outfile (write_file_header w))) = file_header w
   \<and> length (file_header w) = 32
   \<and> file_header w =
        [0x44, 0x4B, 0x49, 0x46] @ le16_bytes 0 @ le16_bytes 32 @ le32_bytes VP9_FOURCC
        @ le16_bytes (width w) @ le16_bytes (height w)
        @ le32_bytes FPS_DENOMINATOR @ le32_bytes FPS_NUMERATOR
        @ le32_bytes (frames_written w) @ le32_bytes 0
   \<and> le_decode (field 4 2 (file_header w)) = 0
   \<and> le_decode (field 6 2 (file_header w)) = 32
   \<and> le_decode (field 8 4 (file_header w)) = 0x30395056
   \<and> le_decode (field 12 2 (file_header w)) = unat (width w) mod 65536
   \<and> le_decode (field 14 2 (file_header w)) = unat (height w) mod 65536
   \<and> le_decode (field 16 4 (file_header w)) = 5
   \<and> le_decode (field 20 4 (file_header w)) = 1
   \<and> le_decode (field 24 4 (file_header w)) = unat (frames_written w)
   \<and> le_decode (field 28 4 (file_header w)) = 0"
proof -
  have l16: "\<And>v. length (le16_bytes v) = 2" and l32: "\<And>v. length (le32_bytes v) = 4"
    by (simp_all add: le16_bytes_def le32_bytes_def)
  have f16: "\<And>off a v c. length a = off \<Longrightarrow> le_decode (field off 2 (a @ le16_bytes v @ c)) = unat v mod 65536"
    by (simp add: field_def l16 le_decode_le16)
  have f32: "\<And>off a v c. length a = off \<Longrightarrow> le_decode (field off 4 (a @ le32_bytes v @ c)) = unat v"
    by (simp add: field_def l32 le_decode_le32)
  have f32': "\<And>off a v. length a = off \<Longrightarrow> le_decode (field off 4 (a @ le32_bytes v)) = unat v"
    using f32 [where c = "[]"] by simp
  let ?h = "file_header w"
  have e: "?h = [0x44, 0x4B, 0x49, 0x46] @ le16_bytes 0 @ le16_bytes 32 @ le32_bytes VP9_FOURCC
        @ le16_bytes (width w) @ le16_bytes (height w)
        @ le32_bytes FPS_DENOMINATOR @ le32_bytes FPS_NUMERATOR
        @ le32_bytes (frames_written w) @ le32_bytes 0"
    by (simp add: file_header_eq VP9_FOURCC_def FPS_DENOMINATOR_def FPS_NUMERATOR_def)
  have 1: "take 32 (contents (outfile (write_file_header w))) = ?h"
    by (simp add: write_file_header_contents length_file_header)
  have 4: "le_decode (field 4 2 ?h) = 0"
    using f16 [of "[0x44, 0x4B, 0x49, 0x46]" 4 0] by (simp add: e)
  have 6: "le_decode (field 6 2 ?h) = 32"
    using f16 [of "[0x44, 0x4B, 0x49, 0x46] @ le16_bytes 0" 6 32] by (simp add: e l16)
  have 8: "le_decode (field 8 4 ?h) = 0x30395056"
    using f32 [of "[0x44, 0x4B, 0x49, 0x46] @ le16_bytes 0 @ le16_bytes 32" 8 VP9_FOURCC]
    by (simp add: e l16 VP9_FOURCC_def)
  have 12: "le_decode (field 12 2 ?h) = unat (width w) mod 65536"
    using f16 [of "[0x44, 0x4B, 0x49, 0x46] @ le16_bytes 0 @ le16_bytes 32 @ le32_bytes VP9_FOURCC" 12 "width w"]
    by (simp add: e l16 l32)
  have 14: "le_decode (field 14 2 ?h) = unat (height w) mod 65536"
    using f16 [of "[0x44, 0x4B, 0x49, 0x46] @ le16_bytes 0 @ le16_bytes 32 @ le32_bytes VP9_FOURCC @ le16_bytes (width w)" 14 "height w"]
    by (simp add: e l16 l32)
  have 16: "le_decode (field 16 4 ?h) = 5"
    using f32 [of "[0x44, 0x4B, 0x49, 0x46] @ le16_bytes 0 @ le16_bytes 32 @ le32_bytes VP9_FOURCC @ le16_bytes (width w) @ le16_bytes (height w)" 16 FPS_DENOMINATOR]
    by (simp add: e l16 l32 FPS_DENOMINATOR_def)
  have 20: "le_decode (field 20 4 ?h) = 1"
    using f32 [of "[0x44, 0x4B, 0x49, 0x46] @ le16_bytes 0 @ le16_bytes 32 @ le32_bytes VP9_FOURCC @ le16_bytes (width w) @ le16_bytes (height w) @ le32_bytes FPS_DENOMINATOR" 20 FPS_NUMERATOR]
    by (simp add: e l16 l32 FPS_NUMERATOR_def)
  have 24: "le_decode (field 24 4 ?h) = unat (frames_written w)"
    using f32 [of "[0x44, 0x4B, 0x49, 0x46] @ le16_bytes 0 @ le16_bytes 32 @ le32_bytes VP9_FOURCC @ le16_bytes (width w) @ le16_bytes (height w) @ le32_bytes FPS_DENOMINATOR @ le32_bytes FPS_NUMERATOR" 24 "frames_written w"]
    by (simp add: e l16 l32)
  have 28: "le_decode (field 28 4 ?h) = 0"
    using f32' [of "[0x44, 0x4B, 0x49, 0x46] @ le16_bytes 0 @ le16_bytes 32 @ le32_bytes VP9_FOURCC @ le16_bytes (width w) @ le16_bytes (height w) @ le32_bytes FPS_DENOMINATOR @ le32_bytes FPS_NUMERATOR @ le32_bytes (frames_written w)" 28 0]
    by (simp add: e l16 l32)
  from 1 length_file_header [of w] e 4 6 8 12 14 16 20 24 28 show ?thesis
    by (intro conjI)
qed


lemma replicate_numeral: "replicate (numeral k) x = x # replicate (pred_numeral k) x"
  by (simp add: numeral_eq_Suc)

lemma fwrite_at_end:
  "position f = length (contents f) \<Longrightarrow>
   fwrite bs f = (\<lparr>contents = contents f @ bs, position = length (contents f) + length bs\<rparr>, length bs)"
  by (simp add: fwrite_def Let_def)

lemma mask_32: "(0xFFFFFFFF :: int64) = mask 32"
  by (simp add: mask_eq_exp_minus_1)

lemma ucast_low_half: "(ucast ((pts::int64) AND 0xFFFFFFFF) :: c_int) = ucast pts"
  by (rule bit_word_eqI) (auto simp add: bit_simps mask_32)

lemma ucast_high_half: "(ucast (signed_drop_bit 32 (pts::int64)) :: c_int) = ucast (drop_bit 32 pts)"
  by (rule bit_word_eqI) (auto simp add: bit_simps)

lemma ivf_frame_header_eq:
  "ivf_frame_header pts frame_size =
     le32_bytes frame_size @ le32_bytes (ucast pts) @ le32_bytes (ucast (drop_bit 32 pts))"
  by (simp add: ivf_frame_header_def mem_put_le32_def Let_def le32_bytes_def list_update_numeral
      replicate_numeral ucast_and_255 ucast_signed_drop_bit ucast_low_half ucast_high_half)

lemma length_le32_bytes: "length (le32_bytes v) = 4"
  by (simp add: le32_bytes_def)

lemma length_le16_bytes: "length (le16_bytes v) = 2"
  by (simp add: le16_bytes_def)

lemma write_frame_at_end:
  assumes "position (outfile w) = length (contents (outfile w))"
  shows "vpx_video_writer_write_frame w buffer pts =
      (w\<lparr>outfile := \<lparr>contents = contents (outfile w) @ le32_bytes (word_of_nat (length buffer))
                            @ le32_bytes (ucast pts) @ le32_bytes (ucast (drop_bit 32 pts)) @ buffer,
                    position = length (contents (outfile w)) + 12 + length buffer\<rparr>,
         frames_written := frames_written w + 1\<rparr>, 1)"
  using assms
  by (simp add: vpx_video_writer_write_frame_def write_ivf_frame_header_def fwrite_at_end
      ivf_frame_header_eq length_le32_bytes Let_def)

lemma unat_ucast_low: "unat (ucast (pts::int64) :: c_int) = unat pts mod 4294967296"
  by (simp add: unsigned_ucast_eq take_bit_eq_mod)

lemma unat_ucast_high: "unat (ucast (drop_bit 32 (pts::int64)) :: c_int) = unat pts div 4294967296"
proof -
  have "unat pts < 2 ^ 64" using unsigned_less [of pts, where 'a = nat] by simp
  then have "unat pts div 4294967296 < 4294967296" by simp
  moreover have "unat (ucast (drop_bit 32 pts) :: c_int) = take_bit 32 (drop_bit 32 (unat pts))"
    by (simp add: unsigned_ucast_eq unat_drop_bit_eq)
  ultimately show ?thesis
    by (simp add: drop_bit_eq_div take_bit_eq_mod)
qed

lemma field_0: "length b = len \<Longrightarrow> field 0 len (b @ c) = b"
  by (simp add: field_def)

lemma field_app: "length a = off \<Longrightarrow> length b = len \<Longrightarrow> field off len (a @ b @ c) = b"
  by (simp add: field_def)

lemma field_app_end: "length a = off \<Longrightarrow> length b = len \<Longrightarrow> field off len (a @ b) = b"
  by (simp add: field_def)

section \<open>Appending a frame\<close>

text \<open>
  Claim C1, amended. An append (\<open>vpx_video_writer_write_frame\<close>) at the end of a file
  that holds a stream header writes the 12-byte frame header (the payload size, the low
  half of the time stamp and its high half, each as 32 bits least-significant byte first:
  the size modulo \<open>2^32\<close>) and then the payload, increments the frame count in memory
  and leaves the position at the end of the file. It does not write the stream header:
  the first 32 bytes of the file, and with them the frame count on disk, stay as the last
  \<open>write_file_header\<close> left them.
\<close>

theorem write_frame_appends:
  assumes "position (outfile w) = length (contents (outfile w))"
    and "32 \<le> length (contents (outfile w))"
  shows "vpx_video_writer_write_frame w buffer pts =
      (w\<lparr>outfile := \<lparr>contents = contents (outfile w)
                            @ ivf_frame_header pts (word_of_nat (length buffer)) @ buffer,
                    position = length (contents (outfile w)) + 12 + length buffer\<rparr>,
         frames_written := frames_written w + 1\<rparr>, 1)
    \<and> ivf_frame_header pts (word_of_nat (length buffer)) =
        le32_bytes (word_of_nat (length buffer)) @ le32_bytes (ucast pts)
        @ le32_bytes (ucast (drop_bit 32 pts))
    \<and> length (ivf_frame_header pts (word_of_nat (length buffer))) = 12
    \<and> le_decode (field 0 4 (ivf_frame_header pts (word_of_nat (length buffer))))
        = length buffer mod 4294967296
    \<and> le_decode (field 4 4 (ivf_frame_header pts (word_of_nat (length buffer))))
        = unat pts mod 4294967296
    \<and> le_decode (field 8 4 (ivf_frame_header pts (word_of_nat (length buffer))))
        = unat pts div 4294967296
    \<and> position (outfile (fst (vpx_video_writer_write_frame w buffer pts)))
        = length (contents (outfile (fst (vpx_video_writer_write_frame w buffer pts))))
    \<and> take 32 (contents (outfile (fst (vpx_video_writer_write_frame w buffer pts))))
        = take 32 (contents (outfile w))
    \<and> header_frame_count (contents (outfile (fst (vpx_video_writer_write_frame w buffer pts))))
        = header_frame_count (contents (outfile w))"
proof -
  let ?h = "ivf_frame_header pts (word_of_nat (length buffer))"
  have e: "?h = le32_bytes (word_of_nat (length buffer)) @ le32_bytes (ucast pts)
        @ le32_bytes (ucast (drop_bit 32 pts))"
    by (rule ivf_frame_header_eq)
  have l: "length ?h = 12"
    by (simp add: e length_le32_bytes)
  have w: "vpx_video_writer_write_frame w buffer pts =
      (w\<lparr>outfile := \<lparr>contents = contents (outfile w) @ ?h @ buffer,
                    position = length (contents (outfile w)) + 12 + length buffer\<rparr>,
         frames_written := frames_written w + 1\<rparr>, 1)"
    using write_frame_at_end [OF assms(1)] by (simp add: e)
  have d0: "le_decode (field 0 4 ?h) = length buffer mod 4294967296"
    by (simp add: e field_0 length_le32_bytes le_decode_le32 unat_of_nat)
  have d4: "le_decode (field 4 4 ?h) = unat pts mod 4294967296"
    using field_app [of "le32_bytes (word_of_nat (length buffer))" 4 "le32_bytes (ucast pts)" 4]
    by (simp add: e length_le32_bytes le_decode_le32 unat_ucast_low)
  have d8: "le_decode (field 8 4 ?h) = unat pts div 4294967296"
    using field_app_end [of "le32_bytes (word_of_nat (length buffer)) @ le32_bytes (ucast pts)" 8
        "le32_bytes (ucast (drop_bit 32 pts))" 4]
    by (simp add: e length_le32_bytes le_decode_le32 unat_ucast_high)
  have p: "position (outfile (fst (vpx_video_writer_write_frame w buffer pts)))
        = length (contents (outfile (fst (vpx_video_writer_write_frame w buffer pts))))"
    by (simp add: w l)
  have t: "take 32 (contents (outfile (fst (vpx_video_writer_write_frame w buffer pts))))
        = take 32 (contents (outfile w))"
    using assms(2) by (simp add: w)
  have c: "header_frame_count (contents (outfile (fst (vpx_video_writer_write_frame w buffer pts))))
        = header_frame_count (contents (outfile w))"
    using assms(2) by (simp add: w header_frame_count_def field_def)
  from w e l d0 d4 d8 p t c show ?thesis
    by (intro conjI)
qed


lemma header_frame_count_header:
  "header_frame_count (file_header w @ rest) = unat (frames_written w)"
proof -
  have "file_header w @ rest =
     ([0x44, 0x4B, 0x49, 0x46] @ le16_bytes 0 @ le16_bytes 32 @ le32_bytes 0x30395056
        @ le16_bytes (width w) @ le16_bytes (height w) @ le32_bytes 5 @ le32_bytes 1)
     @ le32_bytes (frames_written w) @ (le32_bytes 0 @ rest)"
    by (simp add: file_header_eq)
  then show ?thesis
    unfolding header_frame_count_def
    by (simp only: field_app length_append length_le16_bytes length_le32_bytes le_decode_le32)
       (simp add: field_def length_le16_bytes length_le32_bytes le_decode_le32)
qed

lemma writer_4x2_simps:
  "contents (outfile writer_4x2) = []" "position (outfile writer_4x2) = 0"
  "frames_written writer_4x2 = 0" "width writer_4x2 = 4" "height writer_4x2 = 2"
  by (simp_all add: writer_4x2_def fopen_w_def)

text \<open>
  Claim C1 as stated fails: after the constructor's header and one append, one frame has
  been appended and the frame count in the header on disk is 0.
\<close>

theorem append_leaves_header_count:
  "frames_written (fst (vpx_video_writer_write_frame (write_file_header writer_4x2) [1, 2, 3] 7)) = 1
   \<and> header_frame_count
        (contents (outfile (fst (vpx_video_writer_write_frame (write_file_header writer_4x2) [1, 2, 3] 7))))
      = 0"
proof -
  have "position (outfile (write_file_header writer_4x2))
      = length (contents (outfile (write_file_header writer_4x2)))"
    by (simp add: write_file_header_position write_file_header_contents writer_4x2_simps
        length_file_header)
  from write_frame_at_end [OF this, of "[1, 2, 3]" 7] show ?thesis
    by (simp add: write_file_header_contents write_file_header_fields writer_4x2_simps
        header_frame_count_header)
qed

theorem write_frame_appends_witness:
  "position (outfile (write_file_header writer_4x2))
      = length (contents (outfile (write_file_header writer_4x2)))
   \<and> 32 \<le> length (contents (outfile (write_file_header writer_4x2)))
   \<and> contents (outfile (fst (vpx_video_writer_write_frame (write_file_header writer_4x2) [1, 2, 3] 7)))
      = file_header writer_4x2 @ [3, 0, 0, 0, 7, 0, 0, 0, 0, 0, 0, 0, 1, 2, 3]
   \<and> position (outfile (fst (vpx_video_writer_write_frame (write_file_header writer_4x2) [1, 2, 3] 7)))
      = 47"
proof -
  have a: "position (outfile (write_file_header writer_4x2))
      = length (contents (outfile (write_file_header writer_4x2)))"
    by (simp add: write_file_header_position write_file_header_contents writer_4x2_simps
        length_file_header)
  have b: "32 \<le> length (contents (outfile (write_file_header writer_4x2)))"
    by (simp add: write_file_header_contents length_file_header)
  from write_frame_appends [OF a b, of "[1, 2, 3]" 7] a b show ?thesis
    by (simp add: write_file_header_contents length_file_header writer_4x2_simps le32_bytes_def)
qed

lemma file_header_take_24:
  "take 24 (file_header w) =
     [0x44, 0x4B, 0x49, 0x46] @ le16_bytes 0 @ le16_bytes 32 @ le32_bytes 0x30395056
        @ le16_bytes (width w) @ le16_bytes (height w) @ le32_bytes 5 @ le32_bytes 1"
  by (simp add: file_header_eq length_le16_bytes length_le32_bytes)

lemma file_header_field_24: "field 24 4 (file_header w @ rest) = le32_bytes (frames_written w)"
  by (simp add: file_header_eq field_def length_le16_bytes length_le32_bytes)

lemma file_header_drop_28: "drop 28 (file_header w) = le32_bytes 0"
  by (simp add: file_header_eq length_le16_bytes length_le32_bytes)

section \<open>Rewriting the stream header\<close>

text \<open>
  Claim C9. When the file begins with a stream header of the same width, height and rate
  (written earlier, with any frame count \<open>n\<close>), \<open>write_file_header\<close> keeps the length
  of the file, keeps bytes 0 to 23 and every byte from offset 28 on (the reserved field
  and all frame records), stores the current frame count in bytes 24 to 27, and leaves
  the position where it was when that was at or past byte 32 (at byte 32 otherwise). No
  field of the writer other than the file changes.
\<close>

theorem header_rewrite_frame:
  assumes "take 32 (contents (outfile w)) = file_header (w\<lparr>frames_written := n\<rparr>)"
  shows "length (contents (outfile (write_file_header w))) = length (contents (outfile w))
    \<and> take 24 (contents (outfile (write_file_header w))) = take 24 (contents (outfile w))
    \<and> field 24 4 (contents (outfile (write_file_header w))) = le32_bytes (frames_written w)
    \<and> drop 28 (contents (outfile (write_file_header w))) = drop 28 (contents (outfile w))
    \<and> position (outfile (write_file_header w))
        = (if 32 \<le> position (outfile w) then position (outfile w) else 32)
    \<and> write_file_header w = w\<lparr>outfile := outfile (write_file_header w)\<rparr>"
proof -
  let ?c = "contents (outfile w)"
  let ?h0 = "file_header (w\<lparr>frames_written := n\<rparr>)"
  have len: "32 \<le> length ?c"
  proof -
    have "length (take 32 ?c) = 32" by (simp only: assms length_file_header)
    then show ?thesis by simp
  qed
  have c: "?c = ?h0 @ drop 32 ?c"
    using append_take_drop_id [of 32 ?c] by (simp only: assms)
  have c': "contents (outfile (write_file_header w)) = file_header w @ drop 32 ?c"
    by (rule write_file_header_contents)
  have 1: "length (contents (outfile (write_file_header w))) = length ?c"
    using len by (simp add: c' length_file_header)
  have "take 24 (contents (outfile (write_file_header w))) = take 24 (file_header w)"
    by (simp add: c' length_file_header)
  moreover have "take 24 ?c = take 24 ?h0"
    by (subst c) (simp add: length_file_header)
  moreover have "take 24 (file_header w) = take 24 ?h0"
    by (simp add: file_header_take_24)
  ultimately have 2: "take 24 (contents (outfile (write_file_header w))) = take 24 ?c"
    by simp
  have 3: "field 24 4 (contents (outfile (write_file_header w))) = le32_bytes (frames_written w)"
    by (simp only: c' file_header_field_24)
  have "drop 28 (contents (outfile (write_file_header w))) = drop 28 (file_header w) @ drop 32 ?c"
    by (simp add: c' length_file_header)
  moreover have "drop 28 ?c = drop 28 ?h0 @ drop 32 ?c"
    by (subst c) (simp add: length_file_header)
  ultimately have 4: "drop 28 (contents (outfile (write_file_header w))) = drop 28 ?c"
    by (simp add: file_header_drop_28)
  have 5: "position (outfile (write_file_header w))
        = (if 32 \<le> position (outfile w) then position (outfile w) else 32)"
    by (rule write_file_header_position)
  have 6: "write_file_header w = w\<lparr>outfile := outfile (write_file_header w)\<rparr>"
    by (simp add: write_file_header_def Let_def)
  from 1 2 3 4 5 6 show ?thesis by (intro conjI)
qed


lemma file_header_cong:
  "width w = width w' \<Longrightarrow> height w = height w' \<Longrightarrow> frames_written w = frames_written w'
   \<Longrightarrow> file_header w = file_header w'"
  by (simp add: file_header_eq)

lemma write_file_header_eq:
  "write_file_header w =
     w\<lparr>outfile := \<lparr>contents = file_header w @ drop 32 (contents (outfile w)),
                    position = (if 32 \<le> position (outfile w) then position (outfile w) else 32)\<rparr>\<rparr>"
  by (simp add: write_file_header_def fwrite_def rewind_def fseek_set_def ftell_def Let_def
      length_file_header)

lemma file_header_write_file_header [simp]: "file_header (write_file_header w) = file_header w"
  by (rule file_header_cong) (simp_all add: write_file_header_fields)

lemma writer_one_frame_eq:
  "writer_one_frame =
     writer_4x2\<lparr>outfile := \<lparr>contents = file_header writer_4x2
                                 @ [3, 0, 0, 0, 7, 0, 0, 0, 0, 0, 0, 0, 1, 2, 3],
                               position = 47\<rparr>,
                 frames_written := 1\<rparr>"
proof -
  have "position (outfile (write_file_header writer_4x2))
      = length (contents (outfile (write_file_header writer_4x2)))"
    by (simp add: write_file_header_position write_file_header_contents writer_4x2_simps
        length_file_header)
  from write_frame_at_end [OF this, of "[1, 2, 3]" 7] show ?thesis
    unfolding writer_one_frame_def
    by (simp add: write_file_header_eq length_file_header writer_4x2_simps le32_bytes_def)
qed

theorem header_rewrite_frame_witness:
  "take 32 (contents (outfile writer_one_frame)) = file_header (writer_one_frame\<lparr>frames_written := 0\<rparr>)
   \<and> length (contents (outfile (write_file_header writer_one_frame))) = 47
   \<and> field 24 4 (contents (outfile (write_file_header writer_one_frame))) = [1, 0, 0, 0]
   \<and> drop 28 (contents (outfile (write_file_header writer_one_frame)))
       = [0, 0, 0, 0, 3, 0, 0, 0, 7, 0, 0, 0, 0, 0, 0, 0, 1, 2, 3]
   \<and> position (outfile (write_file_header writer_one_frame)) = 47"
proof -
  have h: "take 32 (contents (outfile writer_one_frame))
      = file_header (writer_one_frame\<lparr>frames_written := 0\<rparr>)"
    by (simp add: writer_one_frame_eq length_file_header writer_4x2_simps
        file_header_cong [of "writer_4x2\<lparr>outfile := f, frames_written := 0\<rparr>" writer_4x2 for f])
  have d: "drop 28 (contents (outfile writer_one_frame))
       = [0, 0, 0, 0, 3, 0, 0, 0, 7, 0, 0, 0, 0, 0, 0, 0, 1, 2, 3]"
    by (simp add: writer_one_frame_eq length_file_header file_header_drop_28 le32_bytes_def)
  have l: "length (contents (outfile writer_one_frame)) = 47"
    by (simp add: writer_one_frame_eq length_file_header)
  have p: "position (outfile writer_one_frame) = 47" "frames_written writer_one_frame = 1"
    by (simp_all add: writer_one_frame_eq)
  from header_rewrite_frame [OF h] h d l p show ?thesis
    by (simp add: le32_bytes_def)
qed

lemma IVFVPX9Writer_new_Inr:
  assumes "IVFVPX9Writer_new enc width' height' = Inr w"
  shows "contents (outfile w) = file_header w" "position (outfile w) = 32"
    "frames_written w = 0" "frames_encoded w = 0" "width w = width'" "height w = height'"
  using assms
  by (auto simp add: IVFVPX9Writer_new_def write_file_header_contents write_file_header_position
      write_file_header_fields fopen_w_def split: if_splits option.splits
      intro: file_header_cong)

lemma append_frames_at_end:
  "position (outfile w) = length (contents (outfile w)) \<Longrightarrow>
   position (outfile (append_frames w frames)) = length (contents (outfile (append_frames w frames)))
   \<and> contents (outfile (append_frames w frames))
       = contents (outfile w)
         @ concat (map (\<lambda>(buffer, pts). ivf_frame_header pts (word_of_nat (length buffer)) @ buffer) frames)
   \<and> frames_written (append_frames w frames) = frames_written w + word_of_nat (length frames)
   \<and> width (append_frames w frames) = width w \<and> height (append_frames w frames) = height w
   \<and> frames_encoded (append_frames w frames) = frames_encoded w
   \<and> codec (append_frames w frames) = codec w \<and> img (append_frames w frames) = img w"
proof (induction frames arbitrary: w)
  case Nil
  then show ?case by simp
next
  case (Cons fr frames)
  obtain buffer pts where fr: "fr = (buffer, pts)" by (cases fr)
  let ?w = "fst (vpx_video_writer_write_frame w buffer pts)"
  have w: "?w = w\<lparr>outfile := \<lparr>contents = contents (outfile w)
                            @ ivf_frame_header pts (word_of_nat (length buffer)) @ buffer,
                    position = length (contents (outfile w)) + 12 + length buffer\<rparr>,
         frames_written := frames_written w + 1\<rparr>"
    using write_frame_at_end [OF Cons.prems, of buffer pts] by (simp add: ivf_frame_header_eq)
  have "position (outfile ?w) = length (contents (outfile ?w))"
    by (simp add: w ivf_frame_header_eq length_le32_bytes)
  from Cons.IH [OF this] show ?case
    by (simp add: fr) (simp add: w)
qed

lemma length_ivf_frame_header: "length (ivf_frame_header pts n) = 12"
  by (simp add: ivf_frame_header_eq length_le32_bytes)

lemma length_concat_frames:
  "length (concat (map (\<lambda>(buffer, pts). ivf_frame_header pts (word_of_nat (length buffer)) @ buffer) frames))
   = (\<Sum>(buffer, pts)\<leftarrow>frames. 12 + length buffer)"
  by (induction frames) (auto simp add: length_ivf_frame_header)

section \<open>Length and frame count of the container\<close>

text \<open>
  Claim C5. After the constructor, the append of \<open>N\<close> frames (fewer than \<open>2^31\<close>, the
  range of the \<open>int\<close> counter) and the final rewrite of the header, the file is
  \<open>32 + \<Sum> (12 + s\<^sub>i)\<close> bytes long and the frame-count field at offset 24 reads \<open>N\<close>.
\<close>

theorem container_length_and_count:
  assumes "IVFVPX9Writer_new enc width' height' = Inr w"
    and "length frames < 2 ^ 31"
  shows "length (contents (outfile (write_file_header (append_frames w frames))))
      = 32 + (\<Sum>(buffer, pts)\<leftarrow>frames. 12 + length buffer)
    \<and> header_frame_count (contents (outfile (write_file_header (append_frames w frames))))
      = length frames"
proof -
  note n = IVFVPX9Writer_new_Inr [OF assms(1)]
  have e: "position (outfile w) = length (contents (outfile w))"
    by (simp add: n length_file_header)
  note a = append_frames_at_end [OF e, of frames]
  have "length (contents (outfile (write_file_header (append_frames w frames))))
      = 32 + (\<Sum>(buffer, pts)\<leftarrow>frames. 12 + length buffer)"
    by (simp add: write_file_header_contents a n length_file_header length_concat_frames)
  moreover have "unat (word_of_nat (length frames) :: c_int) = length frames"
    using assms(2) by (simp add: unat_of_nat)
  then have "header_frame_count (contents (outfile (write_file_header (append_frames w frames))))
      = length frames"
    by (simp add: write_file_header_contents header_frame_count_header a n)
  ultimately show ?thesis by simp
qed

lemma lag_codec_simps:
  "vpx_codec_enc_config_default (lag_codec lag) = False"
  "vpx_codec_enc_init (lag_codec lag) a b = Some []"
  "vpx_codec_control_lossless (lag_codec lag) q = Some q"
  by (simp_all add: lag_codec_def)

theorem container_length_and_count_witness:
  "IVFVPX9Writer_new (lag_codec 0) 4 2
     = Inr (write_file_header
             \<lparr>outfile = fopen_w, width = 4, height = 2, frames_written = 0, frames_encoded = 0,
              codec = [], img = \<lparr>planes0 = [], planes1 = [], planes2 = []\<rparr>\<rparr>)
   \<and> length [([1, 2, 3], 0), ([4, 5], 1 :: int64)] < (2 :: nat) ^ 31
   \<and> length (contents (outfile (write_file_header (append_frames
        (write_file_header
             \<lparr>outfile = fopen_w, width = 4, height = 2, frames_written = 0, frames_encoded = 0,
              codec = [] :: int list, img = \<lparr>planes0 = [], planes1 = [], planes2 = []\<rparr>\<rparr>)
        [([1, 2, 3], 0), ([4, 5], 1)])))) = 61
   \<and> header_frame_count (contents (outfile (write_file_header (append_frames
        (write_file_header
             \<lparr>outfile = fopen_w, width = 4, height = 2, frames_written = 0, frames_encoded = 0,
              codec = [] :: int list, img = \<lparr>planes0 = [], planes1 = [], planes2 = []\<rparr>\<rparr>)
        [([1, 2, 3], 0), ([4, 5], 1)])))) = 2"
proof -
  have a: "IVFVPX9Writer_new (lag_codec 0) 4 2
     = Inr (write_file_header
             \<lparr>outfile = fopen_w, width = 4, height = 2, frames_written = 0, frames_encoded = 0,
              codec = [], img = \<lparr>planes0 = [], planes1 = [], planes2 = []\<rparr>\<rparr>)"
    by (simp add: IVFVPX9Writer_new_def lag_codec_simps)
  have b: "length [([1, 2, 3], 0), ([4, 5], 1 :: int64)] < (2 :: nat) ^ 31"
    by simp
  from container_length_and_count [OF a b] a b show ?thesis
    by simp
qed


lemma conv_red: "luma 255 0 0 = 82" "chroma_u 255 0 0 = 91" "chroma_v 255 0 0 = 240"
  by (simp_all add: luma_def chroma_u_def chroma_v_def clamp_def signed_divide_int_def)


lemma red_4x2_eq: "red_4x2 = [255,0,0, 255,0,0, 255,0,0, 255,0,0, 255,0,0, 255,0,0, 255,0,0, 255,0,0]"
  by (simp add: red_4x2_def replicate_numeral)

lemma read_red: "read_rgb red_4x2 0 = Inr (255, 0, 0)" "read_rgb red_4x2 3 = Inr (255, 0, 0)"
  "read_rgb red_4x2 6 = Inr (255, 0, 0)" "read_rgb red_4x2 9 = Inr (255, 0, 0)"
  "read_rgb red_4x2 12 = Inr (255, 0, 0)" "read_rgb red_4x2 15 = Inr (255, 0, 0)"
  "read_rgb red_4x2 18 = Inr (255, 0, 0)" "read_rgb red_4x2 21 = Inr (255, 0, 0)"
  by (simp_all add: read_rgb_def red_4x2_eq)

lemma luma_red: "plane1 luma 4 2 red_4x2 0 [] = Inr (replicate 8 82)"
  by (simp add: plane1.simps row1.simps read_red conv_red replicate_numeral)

lemma u_red: "plane2 chroma_u 4 2 red_4x2 0 [] = Inr [91, 91]"
  by (simp add: plane2.simps row2.simps read_red conv_red)

lemma v_red: "plane2 chroma_v 4 2 red_4x2 0 [] = Inr [240, 240]"
  by (simp add: plane2.simps row2.simps read_red conv_red)

lemma update_image_red:
  "width w = 4 \<Longrightarrow> height w = 2 \<Longrightarrow>
   update_image w red_4x2 = Inr (w\<lparr>img := \<lparr>planes0 = replicate 8 82, planes1 = [91, 91], planes2 = [240, 240]\<rparr>\<rparr>)"
  by (simp add: update_image_def luma_red u_red v_red)

section \<open>Colour conversion of a red image\<close>

text \<open>
  Claim C3, amended. For width 4 and height 2 and every pixel (255, 0, 0),
  \<open>update_image\<close> fills the 8 luma samples with 82, the two samples of the U plane with
  91 and the two samples of the V plane with 240; these are the values of the integer
  formulas \<open>Y = clamp((66 R + 129 G + 25 B + 128) / 256 + 16)\<close>,
  \<open>U = clamp((-38 R - 74 G + 112 B + 128) / 256 + 128)\<close> and
  \<open>V = clamp((112 R - 94 G - 18 B + 128) / 256 + 128)\<close> with the division truncating
  towards zero: \<open>-9562 / 256 = -37\<close> and \<open>28688 / 256 = 112\<close>.
\<close>

theorem update_image_pure_red:
  "update_image (w\<lparr>width := 4, height := 2\<rparr>) red_4x2
     = Inr (w\<lparr>width := 4, height := 2,
              img := \<lparr>planes0 = replicate 8 82, planes1 = replicate 2 91,
                      planes2 = replicate 2 240\<rparr>\<rparr>)
   \<and> luma 255 0 0 = clamp ((66 * 255 + 129 * 0 + 25 * 0 + 128) sdiv 256 + 16)
   \<and> chroma_u 255 0 0 = clamp ((- 38 * 255 - 74 * 0 + 112 * 0 + 128) sdiv 256 + 128)
   \<and> chroma_v 255 0 0 = clamp ((112 * 255 - 94 * 0 - 18 * 0 + 128) sdiv 256 + 128)
   \<and> luma 255 0 0 = 82 \<and> chroma_u 255 0 0 = 91 \<and> chroma_v 255 0 0 = 240"
  using update_image_red [of "w\<lparr>width := 4, height := 2\<rparr>"]
  by (simp add: conv_red replicate_numeral signed_divide_int_def clamp_def)

text \<open>
  Claim C3 as stated fails: on the writer for a 4 by 2 image the U plane holds 91, not
  76, and the V plane 240, not 238.
\<close>

theorem update_image_pure_red_chroma:
  "update_image writer_4x2 red_4x2
     = Inr (writer_4x2\<lparr>img := \<lparr>planes0 = replicate 8 82, planes1 = replicate 2 91,
                               planes2 = replicate 2 240\<rparr>\<rparr>)
   \<and> replicate 2 (91 :: byte) \<noteq> replicate 2 76
   \<and> replicate 2 (240 :: byte) \<noteq> replicate 2 238"
  using update_image_red [of writer_4x2]
  by (simp add: writer_4x2_simps replicate_numeral)


section \<open>Submissions to the encoder\<close>

text \<open>
  Claim C10. A flush submission has the frame index \<open>-1\<close>; the remainder of \<open>-1\<close> by
  10 truncates to \<open>-1\<close>, which is not 0, so \<open>encode_frame\<close> with \<open>flush = true\<close> calls
  the encoder with no image, the frame index \<open>-1\<close> and the flags 0, whatever the writer
  and the encoder are.
\<close>

theorem flush_never_forces_keyframe:
  "(- 1 :: int) smod KEYFRAME_INTERVAL = - 1
   \<and> encode_frame enc True w =
       (case vpx_codec_encode enc (codec w) None (- 1) 0 of
          None \<Rightarrow> Inl (Fatal ''Failed to encode frame.'')
        | Some (c, pkts) \<Rightarrow> write_packets pkts (w\<lparr>codec := c\<rparr>) 0)"
  by (simp add: encode_frame_def KEYFRAME_INTERVAL_def signed_modulo_int_def Let_def)

lemma encode_frame_live:
  "encode_frame enc False w =
       (case vpx_codec_encode enc (codec w) (Some (img w)) (sint (frames_encoded w))
               (if sint (frames_encoded w) smod 10 = 0 then 1 else 0) of
          None \<Rightarrow> Inl (Fatal ''Failed to encode frame.'')
        | Some (c, pkts) \<Rightarrow> write_packets pkts (w\<lparr>frames_encoded := frames_encoded w + 1, codec := c\<rparr>) 0)"
  by (simp add: encode_frame_def KEYFRAME_INTERVAL_def VPX_EFLAG_FORCE_KF_def Let_def)

lemma write_packets_at_end:
  "position (outfile w) = length (contents (outfile w)) \<Longrightarrow>
   \<exists>w'. write_packets pkts w got = Inr (w', if pkts = [] then got else 1)
     \<and> position (outfile w') = length (contents (outfile w'))
     \<and> length (contents (outfile w)) \<le> length (contents (outfile w'))
     \<and> take (length (contents (outfile w))) (contents (outfile w')) = contents (outfile w)
     \<and> frames_written w' = frames_written w
          + word_of_nat (frame_pkts pkts)
     \<and> frames_encoded w' = frames_encoded w \<and> codec w' = codec w
     \<and> width w' = width w \<and> height w' = height w \<and> img w' = img w"
proof (induction pkts arbitrary: w got)
  case Nil
  then show ?case by (simp add: frame_pkts_def)
next
  case (Cons pkt pkts)
  show ?case
  proof (cases "kind pkt = VPX_CODEC_CX_FRAME_PKT")
    case True
    let ?w = "fst (vpx_video_writer_write_frame w (frame_buf pkt) (frame_pts pkt))"
    note wf = write_frame_at_end [OF Cons.prems, of "frame_buf pkt" "frame_pts pkt"]
    have e: "position (outfile ?w) = length (contents (outfile ?w))"
      by (simp add: wf length_le32_bytes)
    from Cons.IH [OF e, of 1] obtain w' where w':
      "write_packets pkts ?w 1 = Inr (w', 1)"
      "position (outfile w') = length (contents (outfile w'))"
      "length (contents (outfile ?w)) \<le> length (contents (outfile w'))"
      "take (length (contents (outfile ?w))) (contents (outfile w')) = contents (outfile ?w)"
      "frames_written w' = frames_written ?w
          + word_of_nat (frame_pkts pkts)"
      "frames_encoded w' = frames_encoded ?w" "codec w' = codec ?w"
      "width w' = width ?w" "height w' = height ?w" "img w' = img ?w"
      by (auto split: if_splits)
    have t: "take (length (contents (outfile w))) (contents (outfile w')) = contents (outfile w)"
    proof -
      have "take (length (contents (outfile w))) (contents (outfile w'))
          = take (length (contents (outfile w))) (take (length (contents (outfile ?w))) (contents (outfile w')))"
        by (simp add: wf min_def)
      also have "\<dots> = contents (outfile w)"
        by (simp only: w'(4)) (simp add: wf)
      finally show ?thesis .
    qed
    have "write_packets (pkt # pkts) w got = Inr (w', 1)"
      using True w'(1) by (simp add: wf)
    with w' t True show ?thesis
      by (simp add: wf frame_pkts_def)
  next
    case False
    from Cons.IH [OF Cons.prems, of 1] False show ?thesis
      by (auto simp add: frame_pkts_def split: if_splits)
  qed
qed


lemma write_frame_fields:
  "frames_encoded (fst (vpx_video_writer_write_frame w b p)) = frames_encoded w"
  "codec (fst (vpx_video_writer_write_frame w b p)) = codec w"
  "width (fst (vpx_video_writer_write_frame w b p)) = width w"
  "height (fst (vpx_video_writer_write_frame w b p)) = height w"
  "img (fst (vpx_video_writer_write_frame w b p)) = img w"
  by (simp_all add: vpx_video_writer_write_frame_def Let_def split: prod.splits)

lemma write_packets_fields:
  "write_packets pkts w got = Inr (w', got') \<Longrightarrow>
   frames_encoded w' = frames_encoded w \<and> codec w' = codec w
   \<and> width w' = width w \<and> height w' = height w \<and> img w' = img w"
proof (induction pkts arbitrary: w got)
  case Nil
  then show ?case by simp
next
  case (Cons pkt pkts)
  show ?case
  proof (cases "kind pkt = VPX_CODEC_CX_FRAME_PKT")
    case True
    obtain w1 r where w1: "vpx_video_writer_write_frame w (frame_buf pkt) (frame_pts pkt) = (w1, r)"
      by (cases "vpx_video_writer_write_frame w (frame_buf pkt) (frame_pts pkt)")
    with Cons.prems True have "write_packets pkts w1 1 = Inr (w', got')"
      by (simp split: if_splits)
    from Cons.IH [OF this] write_frame_fields [of w "frame_buf pkt" "frame_pts pkt"] w1
    show ?thesis by simp
  next
    case False
    with Cons.prems have "write_packets pkts w 1 = Inr (w', got')" by simp
    from Cons.IH [OF this] show ?thesis .
  qed
qed

lemma update_image_fields:
  "update_image w buffer = Inr w' \<Longrightarrow> w' = w\<lparr>img := img w'\<rparr>"
  by (auto simp add: update_image_def split: sum.splits)

lemma sint_of_nat_c_int: "k < 2 ^ 31 \<Longrightarrow> sint (word_of_nat k :: c_int) = int k"
  by (simp add: signed_of_nat signed_take_bit_int_eq_self)

lemma smod_10_nat: "(int k smod 10 = 0) = (k mod 10 = 0)"
proof -
  have "int k mod 10 = int (k mod 10)" by (simp add: zmod_int)
  then have "(int k mod 10 = 0) = (k mod 10 = 0)" by (simp only: of_nat_eq_0_iff)
  then show ?thesis by (auto simp add: signed_modulo_int_def)
qed


lemma spy_simps:
  "vpx_codec_enc_config_default (spy enc) = vpx_codec_enc_config_default enc"
  "vpx_codec_enc_init (spy enc) a b = map_option (\<lambda>c. (c, [])) (vpx_codec_enc_init enc a b)"
  "vpx_codec_control_lossless (spy enc) (c, log)
     = map_option (\<lambda>c'. (c', log)) (vpx_codec_control_lossless enc c)"
  "vpx_codec_encode (spy enc) (c, log) im pts flags
     = map_option (\<lambda>(c', pkts). ((c', log @ [(im, pts, flags)]), pkts))
         (vpx_codec_encode enc c im pts flags)"
  by (simp_all add: spy_def)

lemma new_spy:
  assumes "IVFVPX9Writer_new (spy enc) a b = Inr w"
  shows "frames_encoded w = 0 \<and> snd (codec w) = []"
  using assms
  by (auto simp add: IVFVPX9Writer_new_def spy_simps write_file_header_fields
      split: if_splits option.splits)

lemma encode_frame_spy_live:
  assumes "encode_frame (spy enc) False w = Inr (w', got)"
  shows "frames_encoded w' = frames_encoded w + 1
     \<and> snd (codec w') = snd (codec w)
          @ [(Some (img w), sint (frames_encoded w),
              if sint (frames_encoded w) smod 10 = 0 then VPX_EFLAG_FORCE_KF else 0)]"
proof -
  obtain c log where cl: "codec w = (c, log)" by (cases "codec w")
  from assms obtain c' pkts where
    e: "vpx_codec_encode enc c (Some (img w)) (sint (frames_encoded w))
               (if sint (frames_encoded w) smod 10 = 0 then 1 else 0) = Some (c', pkts)"
    and p: "write_packets pkts (w\<lparr>frames_encoded := frames_encoded w + 1,
              codec := (c', log @ [(Some (img w), sint (frames_encoded w),
                 if sint (frames_encoded w) smod 10 = 0 then 1 else 0)])\<rparr>) 0 = Inr (w', got)"
    by (auto simp add: encode_frame_live cl spy_simps split: option.splits)
  from write_packets_fields [OF p] show ?thesis
    by (simp add: cl VPX_EFLAG_FORCE_KF_def)
qed

lemma cadence_Suc:
  "cadence (Suc k) = cadence k @ [(int k, if k mod 10 = 0 then VPX_EFLAG_FORCE_KF else 0)]"
  by (simp add: cadence_def)

lemma capture_iteration_spy:
  assumes "capture_iteration (spy enc) vs junk buffer = Inr w'"
    and "logged vs k" and "k < 2 ^ 31"
  shows "logged (Some w') (Suc k)"
proof -
  obtain v n where v: "sscanf_P6 buffer junk = (v, n)" by (cases "sscanf_P6 buffer junk")
  from assms(1) obtain w0 w1 got where
    w0: "(case vs of None \<Rightarrow> IVFVPX9Writer_new (spy enc) (pwidth v) (pheight v)
          | Some w \<Rightarrow> Inr w) = Inr w0"
    and w1: "update_image w0 (drop (nat (sint (chars v + 1))) buffer) = Inr w1"
    and w': "encode_frame (spy enc) False w1 = Inr (w', got)"
    by (auto simp add: capture_iteration_def Let_def v split: sum.splits if_splits)
  have l0: "frames_encoded w0 = word_of_nat k
      \<and> map (\<lambda>(im, pts, flags). (pts, flags)) (snd (codec w0)) = cadence k"
  proof (cases vs)
    case None
    with w0 assms(2) new_spy [of enc _ _ w0] show ?thesis
      by (simp add: logged_def cadence_def)
  next
    case (Some w)
    with w0 assms(2) show ?thesis by (simp add: logged_def)
  qed
  from update_image_fields [OF w1] have f1: "frames_encoded w1 = frames_encoded w0" "codec w1 = codec w0"
    by (metis IVFVPX9Writer.select_convs IVFVPX9Writer.surjective IVFVPX9Writer.update_convs(7))+
  from encode_frame_spy_live [OF w'] l0 f1 assms(3) show ?thesis
    by (simp add: logged_def cadence_Suc sint_of_nat_c_int smod_10_nat)
qed

lemma main_loop_spy:
  "main_loop (spy enc) vs caps = Inr vs' \<Longrightarrow> logged vs k \<Longrightarrow>
   k + length (filter (\<lambda>c. c \<noteq> No_data) caps) \<le> 2 ^ 31 \<Longrightarrow>
   logged vs' (k + length (filter (\<lambda>c. c \<noteq> No_data) caps))"
proof (induction "spy enc" vs caps arbitrary: k rule: main_loop.induct)
  case (1 video_stream)
  then show ?case by simp
next
  case (2 video_stream cs)
  then show ?case by simp
next
  case (3 video_stream junk buffer cs)
  from "3.prems"(1) obtain w where
    w: "capture_iteration (spy enc) video_stream junk buffer = Inr w"
    and r: "main_loop (spy enc) (Some w) cs = Inr vs'"
    by (auto split: sum.splits)
  from "3.prems"(3) have k: "k < 2 ^ 31" by simp
  from capture_iteration_spy [OF w "3.prems"(2) k] have l: "logged (Some w) (Suc k)" .
  from "3.prems"(3) have "Suc k + length (filter (\<lambda>c. c \<noteq> No_data) cs) \<le> 2 ^ 31" by simp
  from "3.hyps" [OF w r l this] show ?case by simp
qed

lemma spy_log_cadence:
  assumes "main_loop (spy enc) None caps = Inr (Some w)"
    and "length (filter (\<lambda>c. c \<noteq> No_data) caps) \<le> 2 ^ 31"
  shows "map (\<lambda>(im, pts, flags). (pts, flags)) (snd (codec w))
      = cadence (length (filter (\<lambda>c. c \<noteq> No_data) caps))
    \<and> length (snd (codec w)) = length (filter (\<lambda>c. c \<noteq> No_data) caps)
    \<and> (\<forall>i < length (snd (codec w)).
          fst (snd (snd (codec w) ! i)) = int i
          \<and> (snd (snd (snd (codec w) ! i)) = VPX_EFLAG_FORCE_KF) = (i mod 10 = 0)
          \<and> (snd (snd (snd (codec w) ! i)) = 0) = (i mod 10 \<noteq> 0))"
proof -
  let ?n = "length (filter (\<lambda>c. c \<noteq> No_data) caps)"
  let ?log = "snd (codec w)"
  have "logged None 0" by (simp add: logged_def)
  from main_loop_spy [OF assms(1) this] assms(2)
  have m: "map (\<lambda>(im, pts, flags). (pts, flags)) ?log = cadence ?n"
    by (simp add: logged_def)
  then have "length (map (\<lambda>(im, pts, flags). (pts, flags)) ?log) = length (cadence ?n)"
    by simp
  then have l: "length ?log = ?n" by (simp add: cadence_def)
  have "fst (snd (?log ! i)) = int i
          \<and> (snd (snd (?log ! i)) = VPX_EFLAG_FORCE_KF) = (i mod 10 = 0)
          \<and> (snd (snd (?log ! i)) = 0) = (i mod 10 \<noteq> 0)" if "i < length ?log" for i
  proof -
    have "map (\<lambda>(im, pts, flags). (pts, flags)) ?log ! i = cadence ?n ! i"
      by (simp only: m)
    with that l have "snd (?log ! i) = (int i, if i mod 10 = 0 then VPX_EFLAG_FORCE_KF else 0)"
      by (simp add: cadence_def split_beta)
    then show ?thesis by (simp add: VPX_EFLAG_FORCE_KF_def)
  qed
  with m l show ?thesis by blast
qed

lemma write_frame_returns_1: "snd (vpx_video_writer_write_frame w b p) = 1"
  by (simp add: vpx_video_writer_write_frame_def fwrite_def Let_def split: prod.splits)

lemma write_packets_total: "\<exists>r. write_packets pkts w got = Inr r"
proof (induction pkts arbitrary: w got)
  case Nil
  then show ?case by simp
next
  case (Cons pkt pkts)
  obtain w1 r where w1: "vpx_video_writer_write_frame w (frame_buf pkt) (frame_pts pkt) = (w1, r)"
    by (cases "vpx_video_writer_write_frame w (frame_buf pkt) (frame_pts pkt)")
  with write_frame_returns_1 [of w "frame_buf pkt" "frame_pts pkt"] have "r = 1" by simp
  with w1 Cons.IH [of w1 1] Cons.IH [of w 1] show ?case by simp
qed

lemma sscanf_ppm_2x2:
  "sscanf_P6 ppm_2x2 v = (v\<lparr>pwidth := 2, pheight := 2, pdepth := 255, chars := 10\<rparr>, 3)"
  by (simp add: sscanf_P6_def ppm_2x2_def scan_d_def isspace_def isdigit_def decimal_def Let_def)

lemma update_image_ppm_2x2:
  "width w = 2 \<Longrightarrow> height w = 2 \<Longrightarrow>
   update_image w (drop 11 ppm_2x2)
     = Inr (w\<lparr>img := \<lparr>planes0 = [82, 144, 41, 32], planes1 = [91], planes2 = [240]\<rparr>\<rparr>)"
  by (simp add: update_image_def ppm_2x2_def plane1.simps row1.simps plane2.simps row2.simps
      read_rgb_def luma_def chroma_u_def chroma_v_def clamp_def signed_divide_int_def)



lemma capture_iteration_ppm_2x2:
  assumes "\<not> vpx_codec_enc_config_default enc"
    and "\<And>a b. \<exists>c. vpx_codec_enc_init enc a b = Some c"
    and "\<And>c. \<exists>c'. vpx_codec_control_lossless enc c = Some c'"
    and "\<And>c im pts flags. \<exists>r. vpx_codec_encode enc c (Some im) pts flags = Some r"
    and "case vs of None \<Rightarrow> True | Some w \<Rightarrow> width w = 2 \<and> height w = 2"
  shows "\<exists>w'. capture_iteration enc vs junk ppm_2x2 = Inr w' \<and> width w' = 2 \<and> height w' = 2"
proof -
  have "\<exists>w0. (case vs of None \<Rightarrow> IVFVPX9Writer_new enc 2 2 | Some w \<Rightarrow> Inr w) = Inr w0
      \<and> width w0 = 2 \<and> height w0 = 2"
  proof (cases vs)
    case None
    from assms(2) [of 2 2] obtain c where c: "vpx_codec_enc_init enc 2 2 = Some c" ..
    from assms(3) [of c] obtain c' where c': "vpx_codec_control_lossless enc c = Some c'" ..
    from None c c' assms(1) show ?thesis
      by (simp add: IVFVPX9Writer_new_def write_file_header_fields)
  next
    case (Some w)
    with assms(5) show ?thesis by simp
  qed
  then obtain w0 where w0: "(case vs of None \<Rightarrow> IVFVPX9Writer_new enc 2 2 | Some w \<Rightarrow> Inr w) = Inr w0"
    and d0: "width w0 = 2" "height w0 = 2" by blast
  let ?w1 = "w0\<lparr>img := \<lparr>planes0 = [82, 144, 41, 32], planes1 = [91], planes2 = [240]\<rparr>\<rparr>"
  have u: "update_image w0 (drop 11 ppm_2x2) = Inr ?w1"
    using d0 by (rule update_image_ppm_2x2)
  from assms(4) obtain c pkts where
    e: "vpx_codec_encode enc (codec ?w1) (Some (img ?w1)) (sint (frames_encoded ?w1))
               (if sint (frames_encoded ?w1) smod 10 = 0 then 1 else 0) = Some (c, pkts)"
    by (metis surj_pair)
  from write_packets_total obtain w' got where
    p: "write_packets pkts (?w1\<lparr>frames_encoded := frames_encoded ?w1 + 1, codec := c\<rparr>) 0 = Inr (w', got)"
    by (metis surj_pair)
  have "encode_frame enc False ?w1 = Inr (w', got)"
    by (simp only: encode_frame_live e p option.case prod.case)
  moreover from write_packets_fields [OF p] d0 have "width w' = 2 \<and> height w' = 2" by simp
  moreover have "length ppm_2x2 = 23" by (simp add: ppm_2x2_def)
  ultimately show ?thesis
    using w0 u by (cases vs) (simp_all add: capture_iteration_def sscanf_ppm_2x2 Let_def)
qed


lemma main_loop_ppm_2x2:
  assumes "\<not> vpx_codec_enc_config_default enc"
    and "\<And>a b. \<exists>c. vpx_codec_enc_init enc a b = Some c"
    and "\<And>c. \<exists>c'. vpx_codec_control_lossless enc c = Some c'"
    and "\<And>c im pts flags. \<exists>r. vpx_codec_encode enc c (Some im) pts flags = Some r"
  shows "case vs of None \<Rightarrow> True | Some w \<Rightarrow> width w = 2 \<and> height w = 2 \<Longrightarrow>
    \<exists>w'. main_loop enc vs (replicate (Suc n) (Data junk ppm_2x2)) = Inr (Some w')"
proof (induction n arbitrary: vs)
  case 0
  from capture_iteration_ppm_2x2 [OF assms 0, of junk] show ?case by auto
next
  case (Suc n)
  from capture_iteration_ppm_2x2 [OF assms Suc.prems, of junk] obtain w where
    w: "capture_iteration enc vs junk ppm_2x2 = Inr w" "width w = 2" "height w = 2" by blast
  then have "case Some w of None \<Rightarrow> True | Some w \<Rightarrow> width w = 2 \<and> height w = 2" by simp
  from Suc.IH [OF this] w(1) show ?case by simp
qed

lemma main_loop_ppm_2x2_pos:
  assumes "\<not> vpx_codec_enc_config_default enc"
    and "\<And>a b. \<exists>c. vpx_codec_enc_init enc a b = Some c"
    and "\<And>c. \<exists>c'. vpx_codec_control_lossless enc c = Some c'"
    and "\<And>c im pts flags. \<exists>r. vpx_codec_encode enc c (Some im) pts flags = Some r"
    and "0 < n"
  shows "\<exists>w'. main_loop enc None (replicate n (Data junk ppm_2x2)) = Inr (Some w')"
proof -
  from assms(5) obtain m where "n = Suc m" by (cases n) simp_all
  with main_loop_ppm_2x2 [OF assms(1-4), of None m junk] show ?thesis by simp
qed

lemma cadence_12:
  "cadence 12 = [(0, 1), (1, 0), (2, 0), (3, 0), (4, 0), (5, 0), (6, 0), (7, 0), (8, 0), (9, 0),
                 (10, 1), (11, 0)]"
  by (simp add: cadence_def VPX_EFLAG_FORCE_KF_def upt_conv_Cons)

section \<open>Draining the encoder at shutdown\<close>

lemma new_balanced:
  assumes "lookahead_encoder enc held" and "IVFVPX9Writer_new enc a b = Inr w"
  shows "balanced held w \<and> frames_encoded w = 0"
proof -
  from assms(2) obtain c c' where c: "vpx_codec_enc_init enc a b = Some c"
    and c': "vpx_codec_control_lossless enc c = Some c'" and w: "codec w = c'"
    by (auto simp add: IVFVPX9Writer_new_def write_file_header_fields
        split: if_splits option.splits)
  from assms(1) c c' have "held c' = 0"
    unfolding lookahead_encoder_def by metis
  with IVFVPX9Writer_new_Inr [OF assms(2)] w show ?thesis
    by (simp add: balanced_def length_file_header)
qed

lemma update_image_balanced:
  assumes "update_image w buffer = Inr w'"
  shows "balanced held w' = balanced held w" "frames_encoded w' = frames_encoded w"
    "width w' = width w" "height w' = height w"
proof -
  from update_image_fields [OF assms] obtain i where "w' = w\<lparr>img := i\<rparr>" by blast
  then show "balanced held w' = balanced held w" "frames_encoded w' = frames_encoded w"
    "width w' = width w" "height w' = height w"
    by (simp_all add: balanced_def)
qed

lemma encode_live_balanced:
  assumes "lookahead_encoder enc held" and "balanced held w"
    and "encode_frame enc False w = Inr (w', got)"
  shows "balanced held w' \<and> frames_encoded w' = frames_encoded w + 1
    \<and> width w' = width w \<and> height w' = height w"
proof -
  from assms(3) obtain c pkts where
    e: "vpx_codec_encode enc (codec w) (Some (img w)) (sint (frames_encoded w))
               (if sint (frames_encoded w) smod 10 = 0 then 1 else 0) = Some (c, pkts)"
    and p: "write_packets pkts (w\<lparr>frames_encoded := frames_encoded w + 1, codec := c\<rparr>) 0 = Inr (w', got)"
    by (auto simp add: encode_frame_live split: option.splits)
  from assms(1) e have h: "frame_pkts pkts + held c = held (codec w) + 1"
    unfolding lookahead_encoder_def by blast
  let ?w = "w\<lparr>frames_encoded := frames_encoded w + 1, codec := c\<rparr>"
  from assms(2) have "position (outfile ?w) = length (contents (outfile ?w))"
    by (simp add: balanced_def)
  from write_packets_at_end [OF this, of pkts 0] p
  have w': "position (outfile w') = length (contents (outfile w'))"
    "length (contents (outfile ?w)) \<le> length (contents (outfile w'))"
    "frames_written w' = frames_written ?w + word_of_nat (frame_pkts pkts)"
    "frames_encoded w' = frames_encoded ?w" "codec w' = codec ?w"
    "width w' = width ?w" "height w' = height ?w"
    by auto
  have "frames_written w' + word_of_nat (held (codec w'))
      = frames_written w + word_of_nat (frame_pkts pkts + held c)"
    by (simp add: w' add.assoc)
  also have "\<dots> = (frames_written w + word_of_nat (held (codec w))) + 1"
    by (simp only: h) (simp add: add.assoc)
  also have "\<dots> = frames_encoded w + 1"
    using assms(2) by (simp add: balanced_def)
  finally have "frames_written w' + word_of_nat (held (codec w')) = frames_encoded w'"
    by (simp add: w')
  with w' assms(2) show ?thesis
    by (simp add: balanced_def)
qed


lemma capture_iteration_counted:
  assumes "lookahead_encoder enc held"
    and "capture_iteration enc vs junk buffer = Inr w'"
    and "counted held vs k"
  shows "counted held (Some w') (Suc k)"
proof -
  obtain v n where v: "sscanf_P6 buffer junk = (v, n)" by (cases "sscanf_P6 buffer junk")
  from assms(2) obtain w0 w1 got where
    w0: "(case vs of None \<Rightarrow> IVFVPX9Writer_new enc (pwidth v) (pheight v)
          | Some w \<Rightarrow> Inr w) = Inr w0"
    and w1: "update_image w0 (drop (nat (sint (chars v + 1))) buffer) = Inr w1"
    and w': "encode_frame enc False w1 = Inr (w', got)"
    by (auto simp add: capture_iteration_def Let_def v split: sum.splits if_splits)
  have l0: "balanced held w0 \<and> frames_encoded w0 = word_of_nat k"
  proof (cases vs)
    case None
    with w0 assms(3) new_balanced [OF assms(1), of _ _ w0] show ?thesis
      by (simp add: counted_def)
  next
    case (Some w)
    with w0 assms(3) show ?thesis by (simp add: counted_def)
  qed
  from update_image_balanced [OF w1] l0
  have "balanced held w1" "frames_encoded w1 = word_of_nat k" by simp_all
  with encode_live_balanced [OF assms(1) _ w'] show ?thesis
    by (simp add: counted_def)
qed

lemma main_loop_counted:
  assumes "lookahead_encoder enc held"
  shows "main_loop enc vs caps = Inr vs' \<Longrightarrow> counted held vs k \<Longrightarrow>
   counted held vs' (k + length (filter (\<lambda>c. c \<noteq> No_data) caps))"
proof (induction caps arbitrary: vs k)
  case Nil
  then show ?case by simp
next
  case (Cons cap caps)
  show ?case
  proof (cases cap)
    case No_data
    with Cons.prems Cons.IH [of vs k] show ?thesis by simp
  next
    case (Data junk buffer)
    with Cons.prems(1) obtain w where
      w: "capture_iteration enc vs junk buffer = Inr w"
      and r: "main_loop enc (Some w) caps = Inr vs'"
      by (auto split: sum.splits)
    from capture_iteration_counted [OF assms w Cons.prems(2)]
    have "counted held (Some w) (Suc k)" .
    from Cons.IH [OF r this] Data show ?thesis by simp
  qed
qed


lemma encode_frame_flush:
  "encode_frame enc True w =
       (case vpx_codec_encode enc (codec w) None (- 1) 0 of
          None \<Rightarrow> Inl (Fatal ''Failed to encode frame.'')
        | Some (c, pkts) \<Rightarrow> write_packets pkts (w\<lparr>codec := c\<rparr>) 0)"
  by (simp add: encode_frame_def KEYFRAME_INTERVAL_def signed_modulo_int_def Let_def)

lemma lookahead_flushD:
  assumes "lookahead_encoder enc held"
  shows "\<exists>c' pkts. vpx_codec_encode enc c None pts flags = Some (c', pkts) \<and>
        frame_pkts pkts + held c' = held c \<and>
        (held c = 0 \<longrightarrow> pkts = []) \<and> (0 < held c \<longrightarrow> 0 < frame_pkts pkts)"
proof -
  from assms have "\<forall>c pts flags. \<exists>c' pkts.
        vpx_codec_encode enc c None pts flags = Some (c', pkts) \<and>
        frame_pkts pkts + held c' = held c \<and>
        (held c = 0 \<longrightarrow> pkts = []) \<and> (0 < held c \<longrightarrow> 0 < frame_pkts pkts)"
    unfolding lookahead_encoder_def by (elim conjE)
  then show ?thesis by (elim allE)
qed

lemma lookahead_flushE:
  assumes "lookahead_encoder enc held"
  obtains c' pkts where "vpx_codec_encode enc c None pts flags = Some (c', pkts)"
    and "frame_pkts pkts + held c' = held c"
    and "held c = 0 \<longrightarrow> pkts = []" and "0 < held c \<longrightarrow> 0 < frame_pkts pkts"
  using lookahead_flushD [OF assms, of c pts flags] by (elim exE conjE) (rule that)


lemma encode_flush_balanced:
  assumes "lookahead_encoder enc held" and "balanced held w"
  shows "\<exists>w' got. encode_frame enc True w = Inr (w', got) \<and> balanced held w'
    \<and> frames_encoded w' = frames_encoded w \<and> width w' = width w \<and> height w' = height w
    \<and> take (length (contents (outfile w))) (contents (outfile w')) = contents (outfile w)
    \<and> (held (codec w) = 0 \<longrightarrow> got = 0 \<and> contents (outfile w') = contents (outfile w)
          \<and> frames_written w' = frames_written w \<and> held (codec w') = 0)
    \<and> (0 < held (codec w) \<longrightarrow> got \<noteq> 0 \<and> held (codec w') < held (codec w))"
proof -
  obtain c pkts where
    e: "vpx_codec_encode enc (codec w) None (- 1) 0 = Some (c, pkts)"
    and h: "frame_pkts pkts + held c = held (codec w)"
    and z: "held (codec w) = 0 \<longrightarrow> pkts = []"
    and nz: "0 < held (codec w) \<longrightarrow> 0 < frame_pkts pkts"
    by (rule lookahead_flushE [OF assms(1)])
  let ?w = "w\<lparr>codec := c\<rparr>"
  from assms(2) have "position (outfile ?w) = length (contents (outfile ?w))"
    by (simp add: balanced_def)
  from write_packets_at_end [OF this, of pkts 0] obtain w' where
    p: "write_packets pkts ?w 0 = Inr (w', if pkts = [] then 0 else 1)"
    and w': "position (outfile w') = length (contents (outfile w'))"
    "length (contents (outfile ?w)) \<le> length (contents (outfile w'))"
    "take (length (contents (outfile ?w))) (contents (outfile w')) = contents (outfile ?w)"
    "frames_written w' = frames_written ?w + word_of_nat (frame_pkts pkts)"
    "frames_encoded w' = frames_encoded ?w" "codec w' = codec ?w"
    "width w' = width ?w" "height w' = height ?w"
    by (elim exE conjE) (rule that)
  have enc: "encode_frame enc True w = Inr (w', if pkts = [] then 0 else 1)"
    by (simp add: encode_frame_flush e p)
  have "frames_written w' + word_of_nat (held (codec w'))
      = frames_written w + word_of_nat (frame_pkts pkts + held c)"
    by (simp add: w' add.assoc)
  also have "\<dots> = frames_encoded w"
    using assms(2) by (simp only: h) (simp add: balanced_def)
  finally have b: "balanced held w'"
    using assms(2) w' by (simp add: balanced_def)
  have zero: "contents (outfile w') = contents (outfile w) \<and> frames_written w' = frames_written w
      \<and> held (codec w') = 0" if "held (codec w) = 0"
  proof -
    from that z have "pkts = []" by simp
    with p have "w' = ?w" by simp
    with that h show ?thesis by simp
  qed
  have pos: "(if pkts = [] then (0::int) else 1) \<noteq> 0 \<and> held (codec w') < held (codec w)"
    if "0 < held (codec w)"
  proof -
    from that nz have f: "0 < frame_pkts pkts" by simp
    then have "pkts \<noteq> []" by (auto simp add: frame_pkts_def)
    with f h w' show ?thesis by simp
  qed
  from enc b w' zero pos z show ?thesis
    by (intro exI [of _ w'] exI [of _ "if pkts = [] then 0 else 1"]) simp
qed

lemma take_prefix_trans:
  assumes "take (length a) b = a" and "take (length b) c = b"
  shows "take (length a) c = a"
proof -
  have "length (take (length a) b) = length a" by (simp only: assms(1))
  then have "length a \<le> length b" by simp
  then have "take (length a) c = take (length a) (take (length b) c)" by (simp add: min_def)
  then show ?thesis by (simp only: assms)
qed

lemma flush_loop_drains:
  assumes "lookahead_encoder enc held"
  shows "balanced held w \<Longrightarrow>
    \<exists>w'. flush_loop enc w = Some (Inr w') \<and> balanced held w' \<and> held (codec w') = 0
      \<and> frames_encoded w' = frames_encoded w \<and> width w' = width w \<and> height w' = height w
      \<and> take (length (contents (outfile w))) (contents (outfile w')) = contents (outfile w)
      \<and> (held (codec w) = 0 \<longrightarrow>
            contents (outfile w') = contents (outfile w) \<and> frames_written w' = frames_written w)"
proof (induction "held (codec w)" arbitrary: w rule: less_induct)
  case less
  from encode_flush_balanced [OF assms less.prems] obtain w1 got where
    e: "encode_frame enc True w = Inr (w1, got)" and b: "balanced held w1"
    and f: "frames_encoded w1 = frames_encoded w" "width w1 = width w" "height w1 = height w"
    and t: "take (length (contents (outfile w))) (contents (outfile w1)) = contents (outfile w)"
    and z: "held (codec w) = 0 \<longrightarrow> got = 0 \<and> contents (outfile w1) = contents (outfile w)
          \<and> frames_written w1 = frames_written w \<and> held (codec w1) = 0"
    and nz: "0 < held (codec w) \<longrightarrow> got \<noteq> 0 \<and> held (codec w1) < held (codec w)"
    by (elim exE conjE) (rule that)
  show ?case
  proof (cases "held (codec w) = 0")
    case True
    with z have "got = 0" by simp
    with e have "flush_loop enc w = Some (Inr w1)"
      by (subst flush_loop.simps) simp
    with b f t z True show ?thesis by simp
  next
    case False
    with nz have g: "got \<noteq> 0" and l: "held (codec w1) < held (codec w)" by simp_all
    from less.hyps [OF l b] obtain w' where
      w': "flush_loop enc w1 = Some (Inr w')" "balanced held w'" "held (codec w') = 0"
      "frames_encoded w' = frames_encoded w1" "width w' = width w1" "height w' = height w1"
      "take (length (contents (outfile w1))) (contents (outfile w')) = contents (outfile w1)"
      by (elim exE conjE) (rule that)
    from e g w'(1) have "flush_loop enc w = Some (Inr w')"
      by (subst flush_loop.simps) simp
    with w' f False take_prefix_trans [OF t w'(7)] show ?thesis by simp
  qed
qed


lemma write_file_header_balanced:
  "balanced held w \<Longrightarrow> balanced held (write_file_header w)"
  by (simp add: balanced_def write_file_header_contents write_file_header_position
      write_file_header_fields length_file_header)

lemma header_frame_count_take:
  "28 \<le> n \<Longrightarrow> header_frame_count (take n xs) = header_frame_count xs"
  by (simp add: header_frame_count_def field_def drop_take min_def)

lemma flush_drains:
  assumes "lookahead_encoder enc held" and "balanced held w"
  shows "\<exists>w'. flush enc w = Some (Inr w') \<and> balanced held w' \<and> held (codec w') = 0
      \<and> frames_encoded w' = frames_encoded w
      \<and> header_frame_count (contents (outfile w')) = unat (frames_written w)
      \<and> (held (codec w) = 0 \<longrightarrow> frames_written w' = frames_written w)"
proof -
  let ?w = "write_file_header w"
  from flush_loop_drains [OF assms(1) write_file_header_balanced [OF assms(2)]]
  obtain w' where w': "flush_loop enc ?w = Some (Inr w')" "balanced held w'"
    "held (codec w') = 0" "frames_encoded w' = frames_encoded ?w"
    "take (length (contents (outfile ?w))) (contents (outfile w')) = contents (outfile ?w)"
    "held (codec ?w) = 0 \<longrightarrow>
            contents (outfile w') = contents (outfile ?w) \<and> frames_written w' = frames_written ?w"
    by (elim exE conjE) (rule that)
  have l: "28 \<le> length (contents (outfile ?w))"
    by (simp add: write_file_header_contents length_file_header)
  have "header_frame_count (contents (outfile w'))
      = header_frame_count (take (length (contents (outfile ?w))) (contents (outfile w')))"
    by (simp only: header_frame_count_take [OF l])
  also have "\<dots> = unat (frames_written w)"
    by (simp only: w'(5)) (simp add: write_file_header_contents header_frame_count_header)
  finally have "header_frame_count (contents (outfile w')) = unat (frames_written w)" .
  with w' show ?thesis
    by (simp add: flush_def write_file_header_fields)
qed

text \<open>
  The shutdown of a session with an encoder of finite lookahead, when the remux step
  succeeds: both calls of \<open>flush\<close> run to their end. The file that \<open>mkvmerge\<close> is
  given carries the count of the frames written before the explicit \<open>flush\<close> drained the
  encoder, since \<open>flush\<close> writes the header first; the count of all \<open>n\<close> frames is
  written by the destructor's \<open>flush\<close>, after \<open>mkvmerge\<close> and \<open>unlink\<close>.
\<close>

lemma session_shutdown:
  assumes "lookahead_encoder enc held"
    and "main_loop enc None caps = Inr (Some w)"
    and "length (filter (\<lambda>c. c \<noteq> No_data) caps) = n"
    and "n < 2 ^ 31"
    and "\<And>tmp_file. \<not> mkvmerge tmp_file"
  shows "\<exists>w1 w2. flush enc w = Some (Inr w1)
      \<and> header_frame_count (contents (outfile w1)) = unat (frames_written w)
      \<and> main_finish enc mkvmerge (Some w)
          = Some (Inr (Some w2), [Flush, Remux (Some (contents (outfile w1))), Unlink, Flush])
      \<and> header_frame_count (contents (outfile w2)) = n"
proof -
  have "counted held None 0" by (simp add: counted_def)
  from main_loop_counted [OF assms(1,2) this] assms(3)
  have b: "balanced held w" and fe: "frames_encoded w = word_of_nat n"
    by (simp_all add: counted_def)
  from flush_drains [OF assms(1) b] obtain w1 where
    w1: "flush enc w = Some (Inr w1)" "balanced held w1" "held (codec w1) = 0"
    "frames_encoded w1 = frames_encoded w"
    "header_frame_count (contents (outfile w1)) = unat (frames_written w)"
    by (elim exE conjE) (rule that)
  from w1(2,3,4) fe have fw: "frames_written w1 = word_of_nat n"
    by (simp add: balanced_def)
  from flush_drains [OF assms(1) w1(2)] obtain w2 where
    w2: "flush enc w1 = Some (Inr w2)"
    "header_frame_count (contents (outfile w2)) = unat (frames_written w1)"
    by (elim exE conjE) (rule that)
  from assms(4) have "unat (word_of_nat n :: c_int) = n"
    by (simp add: unat_of_nat)
  with w2(2) fw have c: "header_frame_count (contents (outfile w2)) = n" by simp
  have "main_finish enc mkvmerge (Some w)
          = Some (Inr (Some w2), [Flush, Remux (Some (contents (outfile w1))), Unlink, Flush])"
    by (simp add: main_finish_def w1(1) w2(1) assms(5) IVFVPX9Writer_destroy_def)
  with w1(1,5) c show ?thesis by blast
qed


lemma frame_pkts_simps: "frame_pkts [] = 0" "frame_pkts [frame_pkt p] = 1"
  by (simp_all add: frame_pkts_def frame_pkt_def)

lemma lag_codec_encode_live:
  "vpx_codec_encode (lag_codec lag) q (Some im) pts flags =
     (if lag < length (q @ [pts]) then Some (tl (q @ [pts]), [frame_pkt (hd (q @ [pts]))])
      else Some (q @ [pts], []))"
  by (simp add: lag_codec_def)

lemma lag_codec_encode_flush:
  "vpx_codec_encode (lag_codec lag) q None pts flags =
     (case q of [] \<Rightarrow> Some ([], []) | p # q' \<Rightarrow> Some (q', [frame_pkt p]))"
  by (simp add: lag_codec_def)

lemma lag_codec_lookahead: "lookahead_encoder (lag_codec lag) length"
  unfolding lookahead_encoder_def
proof (intro conjI allI impI)
  fix a b c assume "vpx_codec_enc_init (lag_codec lag) a b = Some c"
  then show "length c = 0" by (simp add: lag_codec_simps)
next
  fix c c' assume "vpx_codec_control_lossless (lag_codec lag) c = Some c'"
  then show "length c' = length c" by (simp add: lag_codec_simps)
next
  fix c im pts flags c' pkts
  assume "vpx_codec_encode (lag_codec lag) c (Some im) pts flags = Some (c', pkts)"
  then show "frame_pkts pkts + length c' = length c + 1"
    by (auto simp add: lag_codec_encode_live frame_pkts_simps split: if_splits)
next
  fix c :: "int list" and pts flags :: int
  show "\<exists>c' pkts. vpx_codec_encode (lag_codec lag) c None pts flags = Some (c', pkts) \<and>
          frame_pkts pkts + length c' = length c \<and>
          (length c = 0 \<longrightarrow> pkts = []) \<and> (0 < length c \<longrightarrow> 0 < frame_pkts pkts)"
    by (cases c) (simp_all add: lag_codec_encode_flush frame_pkts_simps)
qed

lemma lag_ok:
  "\<not> vpx_codec_enc_config_default (lag_codec lag)"
  "\<exists>c. vpx_codec_enc_init (lag_codec lag) a b = Some c"
  "\<exists>c'. vpx_codec_control_lossless (lag_codec lag) d = Some c'"
  "\<exists>r. vpx_codec_encode (lag_codec lag) d (Some im) pts flags = Some r"
  by (simp_all add: lag_codec_simps lag_codec_encode_live)

lemma new_lag_codec:
  "IVFVPX9Writer_new (lag_codec lag) a b = Inr w \<Longrightarrow> codec w = []"
  by (auto simp add: IVFVPX9Writer_new_def lag_codec_simps write_file_header_fields)

lemma capture_iteration_lag_held:
  assumes "capture_iteration (lag_codec lag) vs junk buffer = Inr w'"
    and "(case vs of None \<Rightarrow> 0 | Some w \<Rightarrow> length (codec w)) \<le> lag"
  shows "length (codec w') = min lag (Suc (case vs of None \<Rightarrow> 0 | Some w \<Rightarrow> length (codec w)))"
proof -
  obtain v n where v: "sscanf_P6 buffer junk = (v, n)" by (cases "sscanf_P6 buffer junk")
  from assms(1) obtain w0 w1 got where
    w0: "(case vs of None \<Rightarrow> IVFVPX9Writer_new (lag_codec lag) (pwidth v) (pheight v)
          | Some w \<Rightarrow> Inr w) = Inr w0"
    and w1: "update_image w0 (drop (nat (sint (chars v + 1))) buffer) = Inr w1"
    and w': "encode_frame (lag_codec lag) False w1 = Inr (w', got)"
    by (auto simp add: capture_iteration_def Let_def v split: sum.splits if_splits)
  have h0: "length (codec w0) = (case vs of None \<Rightarrow> 0 | Some w \<Rightarrow> length (codec w))"
  proof (cases vs)
    case None
    with w0 new_lag_codec [of lag _ _ w0] show ?thesis by simp
  next
    case (Some w)
    with w0 show ?thesis by simp
  qed
  from update_image_fields [OF w1] obtain i where "w1 = w0\<lparr>img := i\<rparr>" by blast
  then have c1: "codec w1 = codec w0" by simp
  from w' obtain c pkts where
    e: "vpx_codec_encode (lag_codec lag) (codec w1) (Some (img w1)) (sint (frames_encoded w1))
               (if sint (frames_encoded w1) smod 10 = 0 then 1 else 0) = Some (c, pkts)"
    and p: "write_packets pkts (w1\<lparr>frames_encoded := frames_encoded w1 + 1, codec := c\<rparr>) 0 = Inr (w', got)"
    by (auto simp add: encode_frame_live split: option.splits)
  from write_packets_fields [OF p] have "codec w' = c" by simp
  moreover from e have "length c = min lag (Suc (length (codec w1)))"
    using assms(2) h0 c1
    by (auto simp add: lag_codec_encode_live split: if_splits)
  ultimately show ?thesis by (simp add: c1 h0)
qed

lemma main_loop_lag_held:
  "main_loop (lag_codec lag) vs caps = Inr vs' \<Longrightarrow>
   (case vs of None \<Rightarrow> 0 | Some w \<Rightarrow> length (codec w)) \<le> lag \<Longrightarrow>
   (case vs' of None \<Rightarrow> 0 | Some w \<Rightarrow> length (codec w))
     = min lag ((case vs of None \<Rightarrow> 0 | Some w \<Rightarrow> length (codec w))
                + length (filter (\<lambda>c. c \<noteq> No_data) caps))"
proof (induction caps arbitrary: vs)
  case Nil
  then show ?case by simp
next
  case (Cons cap caps)
  show ?case
  proof (cases cap)
    case No_data
    with Cons.prems Cons.IH [of vs] show ?thesis by simp
  next
    case (Data junk buffer)
    with Cons.prems(1) obtain w where
      w: "capture_iteration (lag_codec lag) vs junk buffer = Inr w"
      and r: "main_loop (lag_codec lag) (Some w) caps = Inr vs'"
      by (auto split: sum.splits)
    from capture_iteration_lag_held [OF w Cons.prems(2)]
    have h: "length (codec w) = min lag (Suc (case vs of None \<Rightarrow> 0 | Some w \<Rightarrow> length (codec w)))" .
    then have "(case Some w of None \<Rightarrow> 0 | Some w \<Rightarrow> length (codec w)) \<le> lag" by simp
    from Cons.IH [OF r this] h Data show ?thesis by (simp add: min_def)
  qed
qed

lemma lag_session:
  assumes "0 < n" and "n < 2 ^ 31"
  shows "\<exists>w w1 w2.
      main_loop (lag_codec lag) None (replicate n (Data junk_vars ppm_2x2)) = Inr (Some w)
    \<and> flush (lag_codec lag) w = Some (Inr w1)
    \<and> main_finish (lag_codec lag) (\<lambda>tmp_file. False) (Some w)
        = Some (Inr (Some w2), [Flush, Remux (Some (contents (outfile w1))), Unlink, Flush])
    \<and> header_frame_count (contents (outfile w1)) = n - min lag n
    \<and> header_frame_count (contents (outfile w2)) = n"
proof -
  let ?caps = "replicate n (Data junk_vars ppm_2x2)"
  have "\<exists>w. main_loop (lag_codec lag) None ?caps = Inr (Some w)"
    by (rule main_loop_ppm_2x2_pos, rule lag_ok, rule lag_ok, rule lag_ok, rule lag_ok, rule assms(1))
  then obtain w where w: "main_loop (lag_codec lag) None ?caps = Inr (Some w)" ..
  have c: "length (filter (\<lambda>c. c \<noteq> No_data) ?caps) = n" by simp
  have m: "\<not> (\<lambda>tmp_file :: byte list option. False) t" for t by simp
  from session_shutdown [OF lag_codec_lookahead w c assms(2) m] obtain w1 w2 where
    fl: "flush (lag_codec lag) w = Some (Inr w1)"
    and h1: "header_frame_count (contents (outfile w1)) = unat (frames_written w)"
    and f: "main_finish (lag_codec lag) (\<lambda>tmp_file. False) (Some w)
        = Some (Inr (Some w2), [Flush, Remux (Some (contents (outfile w1))), Unlink, Flush])"
    and h2: "header_frame_count (contents (outfile w2)) = n"
    by (elim exE conjE) (rule that)
  from main_loop_lag_held [OF w] c have q: "length (codec w) = min lag n" by simp
  have "counted length None 0" by (simp add: counted_def)
  from main_loop_counted [OF lag_codec_lookahead w this] c
  have "frames_written w + word_of_nat (min lag n) = word_of_nat n"
    by (simp add: counted_def balanced_def q)
  then have "frames_written w = word_of_nat n - word_of_nat (min lag n)"
    by (simp add: eq_diff_eq)
  also have "\<dots> = word_of_nat (n - min lag n)"
    by (simp add: of_nat_diff)
  finally have fw: "frames_written w = word_of_nat (n - min lag n)" .
  have "(n - min lag n) mod 2 ^ 32 = n - min lag n"
    using assms(2) by simp
  then have u: "unat (word_of_nat (n - min lag n) :: c_int) = n - min lag n"
    by (subst unat_of_nat) simp
  have h1': "header_frame_count (contents (outfile w1)) = n - min lag n"
    by (simp only: h1 fw u)
  show ?thesis
    by (rule exI [of _ w], rule exI [of _ w1], rule exI [of _ w2], intro conjI,
        rule w, rule fl, rule f, rule h1', rule h2)
qed

text \<open>
  Claim C6 fails on the code, by a defect of the code: \<open>flush\<close> writes the header
  before it drains the encoder, and nothing rewrites the header between the drain and the
  call of \<open>mkvmerge\<close>. In a session of 10 captured frames whose remux step succeeds,
  the file that the explicit \<open>flush\<close> leaves and that \<open>mkvmerge\<close> reads carries the
  frame count 7 when the encoder holds back 3 frames, and the frame count 0 when it holds
  back 25 frames; the count depends on the number of packets that the drain had to fetch.
  The count 10 is written only by the destructor's \<open>flush\<close>, after \<open>mkvmerge\<close> has
  read the file and \<open>unlink\<close> has removed it.
\<close>

theorem remux_reads_count_before_drain:
  "(\<exists>w w1 w2.
      main_loop (lag_codec 3) None (replicate 10 (Data junk_vars ppm_2x2)) = Inr (Some w)
    \<and> flush (lag_codec 3) w = Some (Inr w1)
    \<and> main_finish (lag_codec 3) (\<lambda>tmp_file. False) (Some w)
        = Some (Inr (Some w2), [Flush, Remux (Some (contents (outfile w1))), Unlink, Flush])
    \<and> header_frame_count (contents (outfile w1)) = 7
    \<and> header_frame_count (contents (outfile w2)) = 10)
   \<and> (\<exists>w w1 w2.
      main_loop (lag_codec 25) None (replicate 10 (Data junk_vars ppm_2x2)) = Inr (Some w)
    \<and> flush (lag_codec 25) w = Some (Inr w1)
    \<and> main_finish (lag_codec 25) (\<lambda>tmp_file. False) (Some w)
        = Some (Inr (Some w2), [Flush, Remux (Some (contents (outfile w1))), Unlink, Flush])
    \<and> header_frame_count (contents (outfile w1)) = 0
    \<and> header_frame_count (contents (outfile w2)) = 10)"
proof -
  have a: "(0 :: nat) < 10" and b: "(10 :: nat) < 2 ^ 31" by simp_all
  from lag_session [OF a b, of 3] lag_session [OF a b, of 25] show ?thesis
    by simp
qed

section \<open>Shutdown without a writer\<close>



section \<open>A capture whose header does not parse\<close>

lemma sscanf_P6_unassigned:
  assumes "sscanf_P6 buffer junk = (v, n)" and "n < 3"
  shows "chars v = chars junk" "pdepth v = pdepth junk"
    "n < 2 \<Longrightarrow> pheight v = pheight junk" "n < 1 \<Longrightarrow> v = junk"
  using assms
  by (auto simp add: sscanf_P6_def split: list.splits if_splits option.splits)

lemma sscanf_unparsable: "sscanf_P6 unparsable_capture v = (v, 0)"
  by (simp add: sscanf_P6_def unparsable_capture_def)

lemma drop_unparsable: "drop 2 unparsable_capture = drop 11 ppm_2x2"
  by (simp add: unparsable_capture_def ppm_2x2_def)

lemma capture_iteration_unparsable:
  "\<exists>w. capture_iteration (lag_codec 0) None junk_vars unparsable_capture = Inr w
     \<and> width w = 2 \<and> height w = 2 \<and> frames_encoded w = 1
     \<and> img w = \<lparr>planes0 = [82, 144, 41, 32], planes1 = [91], planes2 = [240]\<rparr>"
proof -
  let ?w0 = "write_file_header
     \<lparr>outfile = fopen_w, width = 2, height = 2, frames_written = 0, frames_encoded = 0,
      codec = [] :: int list, img = \<lparr>planes0 = [], planes1 = [], planes2 = []\<rparr>\<rparr>"
  let ?w1 = "?w0\<lparr>img := \<lparr>planes0 = [82, 144, 41, 32], planes1 = [91], planes2 = [240]\<rparr>\<rparr>"
  have n: "IVFVPX9Writer_new (lag_codec 0) 2 2 = Inr ?w0"
    by (simp add: IVFVPX9Writer_new_def lag_codec_simps)
  have u: "update_image ?w0 (drop 2 unparsable_capture) = Inr ?w1"
    by (simp only: drop_unparsable) (rule update_image_ppm_2x2, simp_all add: write_file_header_fields)
  obtain c pkts where
    e: "vpx_codec_encode (lag_codec 0) (codec ?w1) (Some (img ?w1)) (sint (frames_encoded ?w1))
               (if sint (frames_encoded ?w1) smod 10 = 0 then 1 else 0) = Some (c, pkts)"
    using lag_ok(4) by (metis surj_pair)
  from write_packets_total obtain w' got where
    p: "write_packets pkts (?w1\<lparr>frames_encoded := frames_encoded ?w1 + 1, codec := c\<rparr>) 0 = Inr (w', got)"
    by (metis surj_pair)
  have f: "encode_frame (lag_codec 0) False ?w1 = Inr (w', got)"
    by (simp only: encode_frame_live e p option.case prod.case)
  from write_packets_fields [OF p]
  have w': "width w' = 2" "height w' = 2" "frames_encoded w' = 1"
    "img w' = \<lparr>planes0 = [82, 144, 41, 32], planes1 = [91], planes2 = [240]\<rparr>"
    by (simp_all add: write_file_header_fields)
  have l: "length unparsable_capture = 14" by (simp add: unparsable_capture_def)
  have "capture_iteration (lag_codec 0) None junk_vars unparsable_capture = Inr w'"
    using n u f l by (simp add: capture_iteration_def sscanf_unparsable junk_vars_def Let_def)
  with w' show ?thesis by blast
qed

text \<open>
  Claim C7 fails on the code, by a defect of the code: \<open>main\<close> never tests the value
  that \<open>sscanf\<close> returns. For a capture that begins with \<open>X6\<close>, \<open>sscanf\<close> reads no item
  and assigns no variable, whatever the locals hold; the iteration goes on all the same.
  With the locals holding the width 2, the height 2 and the offset 1, it constructs the
  writer with that width and height, converts the pixel data and submits a frame.
\<close>

theorem unparsed_header_session_goes_on:
  "sscanf_P6 unparsable_capture junk = (junk, 0)
   \<and> \<not> isl (capture_iteration (lag_codec 0) None junk_vars unparsable_capture)
   \<and> width (projr (capture_iteration (lag_codec 0) None junk_vars unparsable_capture))
       = pwidth junk_vars
   \<and> height (projr (capture_iteration (lag_codec 0) None junk_vars unparsable_capture))
       = pheight junk_vars
   \<and> frames_encoded (projr (capture_iteration (lag_codec 0) None junk_vars unparsable_capture)) = 1
   \<and> planes0 (img (projr (capture_iteration (lag_codec 0) None junk_vars unparsable_capture)))
       = [82, 144, 41, 32]"
proof -
  from capture_iteration_unparsable obtain w where
    "capture_iteration (lag_codec 0) None junk_vars unparsable_capture = Inr w"
    "width w = 2" "height w = 2" "frames_encoded w = 1"
    "img w = \<lparr>planes0 = [82, 144, 41, 32], planes1 = [91], planes2 = [240]\<rparr>"
    by (elim exE conjE) (rule that)
  then show ?thesis
    by (simp add: sscanf_unparsable junk_vars_def)
qed

section \<open>The cadence of key frames\<close>

text \<open>
  A session with the recording encoder \<open>spy enc\<close> is the session with \<open>enc\<close>, step by
  step: the record changes nothing that the writer does.
\<close>

lemma unspy_simps:
  "outfile (unspy w) = outfile w" "width (unspy w) = width w" "height (unspy w) = height w"
  "frames_written (unspy w) = frames_written w" "frames_encoded (unspy w) = frames_encoded w"
  "codec (unspy w) = fst (codec w)" "img (unspy w) = img w"
  by (simp_all add: unspy_def)

lemma unspy_updates:
  "unspy (w\<lparr>outfile := f\<rparr>) = (unspy w)\<lparr>outfile := f\<rparr>"
  "unspy (w\<lparr>frames_written := n\<rparr>) = (unspy w)\<lparr>frames_written := n\<rparr>"
  "unspy (w\<lparr>frames_encoded := n\<rparr>) = (unspy w)\<lparr>frames_encoded := n\<rparr>"
  "unspy (w\<lparr>img := i\<rparr>) = (unspy w)\<lparr>img := i\<rparr>"
  "unspy (w\<lparr>codec := (c, log)\<rparr>) = (unspy w)\<lparr>codec := c\<rparr>"
  by (simp_all add: unspy_def)

lemma file_header_unspy: "file_header (unspy w) = file_header w"
  by (rule file_header_cong) (simp_all add: unspy_simps)

lemma write_file_header_unspy: "write_file_header (unspy w) = unspy (write_file_header w)"
  by (simp add: write_file_header_eq file_header_unspy unspy_simps unspy_updates)

lemma write_frame_unspy:
  "vpx_video_writer_write_frame (unspy w) b p
     = (unspy (fst (vpx_video_writer_write_frame w b p)), snd (vpx_video_writer_write_frame w b p))"
  by (simp add: vpx_video_writer_write_frame_def Let_def unspy_simps unspy_updates
      split: prod.splits)

lemma write_packets_unspy:
  "write_packets pkts (unspy w) got
     = map_sum id (\<lambda>(w', got'). (unspy w', got')) (write_packets pkts w got)"
proof (induction pkts arbitrary: w got)
  case Nil
  then show ?case by simp
next
  case (Cons pkt pkts)
  show ?case
    by (cases "vpx_video_writer_write_frame w (frame_buf pkt) (frame_pts pkt)")
       (simp add: write_frame_unspy Cons.IH)
qed

lemma encode_frame_unspy:
  "encode_frame enc fl (unspy w)
     = map_sum id (\<lambda>(w', got). (unspy w', got)) (encode_frame (spy enc) fl w)"
proof -
  obtain c log where cl: "codec w = (c, log)" by (cases "codec w")
  show ?thesis
    by (cases fl)
       (auto simp add: encode_frame_def Let_def unspy_simps cl spy_simps unspy_updates
          write_packets_unspy [symmetric] split: option.splits)
qed

lemma update_image_unspy:
  "update_image (unspy w) buffer = map_sum id unspy (update_image w buffer)"
  by (simp add: update_image_def unspy_simps unspy_updates split: sum.splits)

lemma unspy_literal:
  "unspy \<lparr>outfile = f, width = a, height = b, frames_written = n, frames_encoded = m,
           codec = (c, log), img = i\<rparr>
     = \<lparr>outfile = f, width = a, height = b, frames_written = n, frames_encoded = m,
        codec = c, img = i\<rparr>"
  by (simp add: unspy_def)

lemma IVFVPX9Writer_new_unspy:
  "IVFVPX9Writer_new enc a b = map_sum id unspy (IVFVPX9Writer_new (spy enc) a b)"
  by (auto simp add: IVFVPX9Writer_new_def spy_simps write_file_header_unspy [symmetric]
      unspy_literal split: option.splits)

lemma convert_and_encode_unspy:
  "(case update_image (unspy w) d of
      Inl e \<Rightarrow> Inl e
    | Inr w' \<Rightarrow>
        (case encode_frame enc False w' of
           Inl e \<Rightarrow> Inl e
         | Inr (w'', got_pkts) \<Rightarrow> Inr w''))
   = map_sum id unspy
       (case update_image w d of
          Inl e \<Rightarrow> Inl e
        | Inr w' \<Rightarrow>
            (case encode_frame (spy enc) False w' of
               Inl e \<Rightarrow> Inl e
             | Inr (w'', got_pkts) \<Rightarrow> Inr w''))"
proof (cases "update_image w d")
  case (Inl e)
  then show ?thesis by (simp add: update_image_unspy)
next
  case (Inr w')
  then show ?thesis
    by (cases "encode_frame (spy enc) False w'")
       (auto simp add: update_image_unspy encode_frame_unspy)
qed

lemma capture_iteration_unspy:
  "capture_iteration enc (map_option unspy vs) junk buffer
     = map_sum id unspy (capture_iteration (spy enc) vs junk buffer)"
proof -
  obtain v n where v: "sscanf_P6 buffer junk = (v, n)" by (cases "sscanf_P6 buffer junk")
  show ?thesis
  proof (cases vs)
    case None
    show ?thesis
      by (cases "IVFVPX9Writer_new (spy enc) (pwidth v) (pheight v)")
         (simp_all add: capture_iteration_def v None IVFVPX9Writer_new_unspy [of enc]
           convert_and_encode_unspy Let_def)
  next
    case (Some w)
    show ?thesis
      by (simp add: capture_iteration_def v Some convert_and_encode_unspy Let_def)
  qed
qed

lemma main_loop_unspy:
  "main_loop enc (map_option unspy vs) caps
     = map_sum id (map_option unspy) (main_loop (spy enc) vs caps)"
proof (induction caps arbitrary: vs)
  case Nil
  then show ?case by simp
next
  case (Cons cap caps)
  show ?case
  proof (cases cap)
    case No_data
    with Cons.IH [of vs] show ?thesis by simp
  next
    case (Data junk buffer)
    show ?thesis
    proof (cases "capture_iteration (spy enc) vs junk buffer")
      case (Inl e)
      then show ?thesis by (simp add: Data capture_iteration_unspy)
    next
      case (Inr w)
      with Cons.IH [of "Some w"] show ?thesis by (simp add: Data capture_iteration_unspy)
    qed
  qed
qed


text \<open>
  Claim C4. Take any encoder and any session of \<open>n\<close> live frames that reaches the end of
  the capture loop (\<open>n\<close> at most \<open>2^31\<close>, so that the \<open>int\<close> frame index does not
  overflow). The same session with its submissions recorded reaches the same writer,
  and the encoder has received exactly \<open>n\<close> submissions: submission \<open>i\<close> carries the
  frame index \<open>i\<close>, the force-keyframe flag if \<open>i\<close> is a multiple of 10 and the flags 0
  if it is not. (The flush submissions that follow carry the flags 0: claim C10.)
\<close>

theorem keyframe_cadence:
  assumes "main_loop enc None caps = Inr (Some w)"
    and "length (filter (\<lambda>c. c \<noteq> No_data) caps) \<le> 2 ^ 31"
  shows "\<exists>ws. main_loop (spy enc) None caps = Inr (Some ws) \<and> unspy ws = w
      \<and> map (\<lambda>(im, pts, flags). (pts, flags)) (snd (codec ws))
          = cadence (length (filter (\<lambda>c. c \<noteq> No_data) caps))
      \<and> length (snd (codec ws)) = length (filter (\<lambda>c. c \<noteq> No_data) caps)
      \<and> (\<forall>i < length (snd (codec ws)).
            fst (snd (snd (codec ws) ! i)) = int i
            \<and> (snd (snd (snd (codec ws) ! i)) = VPX_EFLAG_FORCE_KF) = (i mod 10 = 0)
            \<and> (snd (snd (snd (codec ws) ! i)) = 0) = (i mod 10 \<noteq> 0))"
proof -
  from main_loop_unspy [of enc None caps] assms(1)
  have "map_sum id (map_option unspy) (main_loop (spy enc) None caps) = Inr (Some w)"
    by simp
  then obtain ws where ws: "main_loop (spy enc) None caps = Inr (Some ws)" and u: "unspy ws = w"
    by (cases "main_loop (spy enc) None caps") auto
  from spy_log_cadence [OF ws assms(2)] ws u show ?thesis
    by (intro exI [of _ ws]) simp
qed

theorem keyframe_cadence_witness:
  "(\<exists>w. main_loop (lag_codec 3) None (replicate 12 (Data junk_vars ppm_2x2)) = Inr (Some w)
      \<and> (\<exists>ws. main_loop (spy (lag_codec 3)) None (replicate 12 (Data junk_vars ppm_2x2))
                = Inr (Some ws) \<and> unspy ws = w
            \<and> map (\<lambda>(im, pts, flags). (pts, flags)) (snd (codec ws))
                = [(0, 1), (1, 0), (2, 0), (3, 0), (4, 0), (5, 0), (6, 0), (7, 0), (8, 0), (9, 0),
                   (10, 1), (11, 0)]))
   \<and> length (filter (\<lambda>c. c \<noteq> No_data) (replicate 12 (Data junk_vars ppm_2x2))) \<le> (2 :: nat) ^ 31"
proof -
  have n: "length (filter (\<lambda>c. c \<noteq> No_data) (replicate 12 (Data junk_vars ppm_2x2))) = 12"
    by simp
  have "\<exists>w. main_loop (lag_codec 3) None (replicate 12 (Data junk_vars ppm_2x2)) = Inr (Some w)"
    by (rule main_loop_ppm_2x2_pos, rule lag_ok, rule lag_ok, rule lag_ok, rule lag_ok, simp)
  then obtain w where
    w: "main_loop (lag_codec 3) None (replicate 12 (Data junk_vars ppm_2x2)) = Inr (Some w)" ..
  have b: "length (filter (\<lambda>c. c \<noteq> No_data) (replicate 12 (Data junk_vars ppm_2x2))) \<le> (2 :: nat) ^ 31"
    by (simp only: n) simp
  from keyframe_cadence [OF w b] obtain ws where
    ws: "main_loop (spy (lag_codec 3)) None (replicate 12 (Data junk_vars ppm_2x2)) = Inr (Some ws)"
    and u: "unspy ws = w"
    and c: "map (\<lambda>(im, pts, flags). (pts, flags)) (snd (codec ws))
          = cadence (length (filter (\<lambda>c. c \<noteq> No_data) (replicate 12 (Data junk_vars ppm_2x2))))"
    by (elim exE conjE) (rule that)
  from c have m: "map (\<lambda>(im, pts, flags). (pts, flags)) (snd (codec ws))
         = [(0, 1), (1, 0), (2, 0), (3, 0), (4, 0), (5, 0), (6, 0), (7, 0), (8, 0), (9, 0),
            (10, 1), (11, 0)]"
    by (simp only: n cadence_12)
  show ?thesis
    by (rule conjI, rule exI [of _ w], rule conjI, rule w, rule exI [of _ ws], rule conjI,
        rule ws, rule conjI, rule u, rule m, rule b)
qed


end
